theory Spec2Isabelle
  imports Complex_Main "HOL-Library.AList" "HOL-Library.Char_ord" "HOL-Library.List_Lexorder"
begin

section \<open>Values of the run state\<close>

text \<open>
  The state of a run is a Python \<^verbatim>\<open>Dict[str, Any]\<close> holding JSON-like values. A value is
  \<^verbatim>\<open>None\<close>, a \<^verbatim>\<open>bool\<close>, an unbounded \<^verbatim>\<open>int\<close>, a finite \<^verbatim>\<open>float\<close> (given by the rational
  it denotes; NaN and the infinities are not represented), a \<^verbatim>\<open>str\<close>, a \<^verbatim>\<open>list\<close> or a
  \<^verbatim>\<open>dict\<close> with string keys. A dict is an association list in insertion order; a Python
  dict never holds a key twice.
\<close>

datatype pyval =
    PNone
  | PBool bool
  | PInt int
  | PFloat rat
  | PStr string
  | PList "pyval list"
  | PDict "(string \<times> pyval) list"

type_synonym pydict = "(string \<times> pyval) list"

text \<open>
  The exceptions the engine raises or meets. \<^verbatim>\<open>str(e)\<close> of each is \<open>exn_str\<close> below.
  \<open>NodeExecutionError n m\<close> wraps whatever a handler raised at node \<open>n\<close>, with \<open>m = str(e)\<close>.
\<close>

datatype exn =
    TypeError
  | StopIteration
  | GraphNotFoundError string
  | RunNotFoundError string
  | ValidationError "string list"
  | ToolNotFoundError string
  | LoopLimitError string int
  | NodeExecutionError string string
  | RecursionError

text \<open>\<^verbatim>\<open>bool\<close> is a subclass of \<^verbatim>\<open>int\<close>; numbers of all three kinds compare by value.\<close>

fun num_of :: "pyval \<Rightarrow> rat option" where
  "num_of (PBool b) = Some (if b then 1 else 0)"
| "num_of (PInt i) = Some (of_int i)"
| "num_of (PFloat q) = Some q"
| "num_of _ = None"

text \<open>
  Python's \<^verbatim>\<open>a == b\<close> as a relation on values: values of unrelated types are unequal,
  lists are equal when they have the same length and equal items, dicts when they have
  the same number of keys and every key of the left one is bound to an equal value in the
  right one. This is the answer the interpreter gives when its recursion limit lets it
  follow the values to the end; \<open>py_eq_depth\<close> below carries the limit.
\<close>

fun py_eq :: "pyval \<Rightarrow> pyval \<Rightarrow> bool"
  and py_eq_list :: "pyval list \<Rightarrow> pyval list \<Rightarrow> bool"
  and py_eq_dict :: "pydict \<Rightarrow> pydict \<Rightarrow> bool" where
  "py_eq PNone PNone = True"
| "py_eq (PStr s) (PStr t) = (s = t)"
| "py_eq (PList xs) (PList ys) = py_eq_list xs ys"
| "py_eq (PDict d) (PDict e) = (length d = length e \<and> py_eq_dict d e)"
| "py_eq a b = (case (num_of a, num_of b) of (Some x, Some y) \<Rightarrow> x = y | _ \<Rightarrow> False)"
| "py_eq_list [] [] = True"
| "py_eq_list (x # xs) (y # ys) = (py_eq x y \<and> py_eq_list xs ys)"
| "py_eq_list _ _ = False"
| "py_eq_dict [] e = True"
| "py_eq_dict ((k, v) # d) e =
     (case map_of e k of None \<Rightarrow> False | Some w \<Rightarrow> py_eq v w \<and> py_eq_dict d e)"

text \<open>The four ordering operators of Python, on a linear order.\<close>

datatype ordop = Gt | Lt | Ge | Le

fun rel :: "ordop \<Rightarrow> 'a::linorder \<Rightarrow> 'a \<Rightarrow> bool" where
  "rel Gt a b = (a > b)"
| "rel Lt a b = (a < b)"
| "rel Ge a b = (a \<ge> b)"
| "rel Le a b = (a \<le> b)"

text \<open>
  Python's \<^verbatim>\<open>a > b\<close>, \<^verbatim>\<open>a < b\<close>, \<^verbatim>\<open>a >= b\<close>, \<^verbatim>\<open>a <= b\<close>. Numbers compare by value, strings
  lexicographically, lists by their first unequal items (or by length when one is a
  prefix of the other); every other pairing raises \<^verbatim>\<open>TypeError\<close>, also \<^verbatim>\<open>None\<close> against
  \<^verbatim>\<open>None\<close> and dict against dict. Again the recursion limit is left to \<open>py_ord_depth\<close>
  below.
\<close>

fun py_ord :: "ordop \<Rightarrow> pyval \<Rightarrow> pyval \<Rightarrow> exn + bool"
  and py_ord_list :: "ordop \<Rightarrow> pyval list \<Rightarrow> pyval list \<Rightarrow> exn + bool" where
  "py_ord opr (PStr s) (PStr t) = Inr (rel opr s t)"
| "py_ord opr (PList xs) (PList ys) = py_ord_list opr xs ys"
| "py_ord opr a b =
     (case (num_of a, num_of b) of
        (Some x, Some y) \<Rightarrow> Inr (rel opr x y)
      | _ \<Rightarrow> Inl TypeError)"
| "py_ord_list opr (x # xs) (y # ys) =
     (if py_eq x y then py_ord_list opr xs ys else py_ord opr x y)"
| "py_ord_list opr xs ys = Inr (rel opr (length xs) (length ys))"

section \<open>Graph configuration (app/models/graph.py)\<close>

text \<open>
  The pydantic models as records. Field names are the source's, with a short prefix where
  two models share a name.
\<close>

record ConditionConfig =
  c_field :: string
  c_operator :: string
  c_value :: pyval

record LoopConfig =
  l_condition :: ConditionConfig
  max_iterations :: int

record NodeConfig =
  n_name :: string
  handler :: string
  description :: "string option"

record EdgeConfig =
  source :: string
  target :: string
  e_condition :: "ConditionConfig option"

record GraphConfig =
  g_name :: string
  nodes :: "NodeConfig list"
  edges :: "EdgeConfig list"
  entry_node :: string
  loops :: "(string \<times> LoopConfig) list option"

section \<open>The condition evaluator (WorkflowExecutor._evaluate_condition)\<close>

text \<open>\<^verbatim>\<open>state.get(field)\<close>: the bound value, or \<^verbatim>\<open>None\<close> when the key is absent.\<close>

definition dict_get :: "pydict \<Rightarrow> string \<Rightarrow> pyval" where
  "dict_get d k = (case map_of d k of None \<Rightarrow> PNone | Some v \<Rightarrow> v)"

text \<open>The table of operator lambdas, in the order the source lists them.\<close>

definition operators :: "(string \<times> (pyval \<Rightarrow> pyval \<Rightarrow> exn + bool)) list" where
  "operators =
     [(''eq'', \<lambda>a b. Inr (py_eq a b)),
      (''ne'', \<lambda>a b. Inr (\<not> py_eq a b)),
      (''gt'', py_ord Gt),
      (''lt'', py_ord Lt),
      (''gte'', py_ord Ge),
      (''lte'', py_ord Le)]"

text \<open>
  The evaluator proper: an unknown operator gives \<^verbatim>\<open>False\<close>; the comparison runs under a
  \<^verbatim>\<open>try\<close> whose \<^verbatim>\<open>except TypeError\<close> gives \<^verbatim>\<open>False\<close>; any other exception would propagate.
\<close>

definition evaluate_condition :: "ConditionConfig \<Rightarrow> pydict \<Rightarrow> exn + bool" where
  "evaluate_condition condition state =
     (let field_value = dict_get state (c_field condition) in
      case map_of operators (c_operator condition) of
        None \<Rightarrow> Inr False
      | Some op_func \<Rightarrow>
          (case op_func field_value (c_value condition) of
             Inl TypeError \<Rightarrow> Inr False
           | Inl e \<Rightarrow> Inl e
           | Inr b \<Rightarrow> Inr b))"

subsection \<open>Comparisons under the interpreter's recursion limit\<close>

text \<open>
  \<open>py_eq\<close> and \<open>py_ord\<close> follow values of any nesting. The interpreter does not: every
  comparison call, the outermost one and each one on an item of a list or on a value of a
  dict, takes one level of its recursion limit, and a call that finds no level left
  raises \<^verbatim>\<open>RecursionError\<close>. The functions below carry the number of levels left when the
  comparison starts. A list comparison first compares the lengths (for \<^verbatim>\<open>==\<close>), then the
  items from the left until two differ; a dict comparison first compares the sizes, then
  looks up each key of the left dict in the right one and compares the values. Items are
  compared as distinct objects, as a state value and a condition value are.
\<close>

fun py_eq_depth :: "nat \<Rightarrow> pyval \<Rightarrow> pyval \<Rightarrow> exn + bool"
  and py_eq_list_depth :: "nat \<Rightarrow> pyval list \<Rightarrow> pyval list \<Rightarrow> exn + bool"
  and py_eq_dict_depth :: "nat \<Rightarrow> pydict \<Rightarrow> pydict \<Rightarrow> exn + bool" where
  "py_eq_depth 0 a b = Inl RecursionError"
| "py_eq_depth (Suc n) (PList xs) (PList ys) =
     (if length xs \<noteq> length ys then Inr False else py_eq_list_depth n xs ys)"
| "py_eq_depth (Suc n) (PDict d) (PDict e) =
     (if length d \<noteq> length e then Inr False else py_eq_dict_depth n d e)"
| "py_eq_depth (Suc n) a b = Inr (py_eq a b)"
| "py_eq_list_depth n (x # xs) (y # ys) =
     (case py_eq_depth n x y of
        Inl e \<Rightarrow> Inl e
      | Inr b \<Rightarrow> if b then py_eq_list_depth n xs ys else Inr False)"
| "py_eq_list_depth n xs ys = Inr (length xs = length ys)"
| "py_eq_dict_depth n [] e = Inr True"
| "py_eq_dict_depth n ((k, v) # d) e =
     (case map_of e k of
        None \<Rightarrow> Inr False
      | Some w \<Rightarrow>
          (case py_eq_depth n v w of
             Inl x \<Rightarrow> Inl x
           | Inr b \<Rightarrow> if b then py_eq_dict_depth n d e else Inr False))"

fun py_ord_depth :: "nat \<Rightarrow> ordop \<Rightarrow> pyval \<Rightarrow> pyval \<Rightarrow> exn + bool"
  and py_ord_list_depth :: "nat \<Rightarrow> ordop \<Rightarrow> pyval list \<Rightarrow> pyval list \<Rightarrow> exn + bool" where
  "py_ord_depth 0 opr a b = Inl RecursionError"
| "py_ord_depth (Suc n) opr (PList xs) (PList ys) = py_ord_list_depth n opr xs ys"
| "py_ord_depth (Suc n) opr a b = py_ord opr a b"
| "py_ord_list_depth n opr (x # xs) (y # ys) =
     (case py_eq_depth n x y of
        Inl e \<Rightarrow> Inl e
      | Inr b \<Rightarrow> if b then py_ord_list_depth n opr xs ys else py_ord_depth n opr x y)"
| "py_ord_list_depth n opr xs ys = Inr (rel opr (length xs) (length ys))"

definition operators_depth :: "nat \<Rightarrow> (string \<times> (pyval \<Rightarrow> pyval \<Rightarrow> exn + bool)) list" where
  "operators_depth n =
     [(''eq'', py_eq_depth n),
      (''ne'', \<lambda>a b. case py_eq_depth n a b of Inl e \<Rightarrow> Inl e | Inr r \<Rightarrow> Inr (\<not> r)),
      (''gt'', py_ord_depth n Gt),
      (''lt'', py_ord_depth n Lt),
      (''gte'', py_ord_depth n Ge),
      (''lte'', py_ord_depth n Le)]"

text \<open>
  \<^verbatim>\<open>_evaluate_condition\<close> with \<open>n\<close> levels of recursion left for the comparison. Its
  \<^verbatim>\<open>except\<close> clause names \<^verbatim>\<open>TypeError\<close> only, so a \<^verbatim>\<open>RecursionError\<close> leaves the function.
  \<open>evaluate_condition\<close> above is this function when the levels suffice (shown below), and
  it is the one the traversal is stated with.
\<close>

definition evaluate_condition_depth :: "nat \<Rightarrow> ConditionConfig \<Rightarrow> pydict \<Rightarrow> exn + bool" where
  "evaluate_condition_depth n condition state =
     (let field_value = dict_get state (c_field condition) in
      case map_of (operators_depth n) (c_operator condition) of
        None \<Rightarrow> Inr False
      | Some op_func \<Rightarrow>
          (case op_func field_value (c_value condition) of
             Inl TypeError \<Rightarrow> Inr False
           | Inl e \<Rightarrow> Inl e
           | Inr b \<Rightarrow> Inr b))"

text \<open>
  The number of levels the comparison of a value takes: one for a scalar, one more than
  its deepest item for a list or a dict.
\<close>

fun depth :: "pyval \<Rightarrow> nat"
  and depth_list :: "pyval list \<Rightarrow> nat"
  and depth_dict :: "pydict \<Rightarrow> nat" where
  "depth (PList xs) = Suc (depth_list xs)"
| "depth (PDict d) = Suc (depth_dict d)"
| "depth v = 1"
| "depth_list [] = 0"
| "depth_list (x # xs) = max (depth x) (depth_list xs)"
| "depth_dict [] = 0"
| "depth_dict ((k, v) # d) = max (depth v) (depth_dict d)"

text \<open>The empty list wrapped in \<open>k\<close> further lists.\<close>

fun nest :: "nat \<Rightarrow> pyval" where
  "nest 0 = PList []"
| "nest (Suc k) = PList [nest k]"

section \<open>Execution models (app/models/execution.py)\<close>

text \<open>
  The wall-clock fields of the source (\<^verbatim>\<open>timestamp\<close>, \<^verbatim>\<open>duration_ms\<close>, \<^verbatim>\<open>started_at\<close>,
  \<^verbatim>\<open>completed_at\<close>) are readings of the system clock; they never steer the traversal and
  are left out of the records.
\<close>

record ExecutionLog =
  node :: string
  state_before :: pydict
  state_after :: pydict
  log_status :: string

record ExecutionResult =
  res_run_id :: string
  res_graph_id :: string
  res_status :: string
  final_state :: pydict
  res_execution_log :: "ExecutionLog list"
  res_error :: "string option"

record RunData =
  run_id :: string
  graph_id :: string
  current_state :: pydict
  status :: string
  execution_log :: "ExecutionLog list"

section \<open>Rendering of exceptions (app/engine/exceptions.py)\<close>

definition quoted :: "string \<Rightarrow> string" where
  "quoted s = CHR 0x27 # s @ [CHR 0x27]"

fun str_nat :: "nat \<Rightarrow> string" where
  "str_nat n =
     (if n < 10 then [char_of (48 + n)]
      else str_nat (n div 10) @ [char_of (48 + n mod 10)])"

definition str_int :: "int \<Rightarrow> string" where
  "str_int i = (if i < 0 then CHR ''-'' # str_nat (nat (- i)) else str_nat (nat i))"

text \<open>
  \<^verbatim>\<open>str(e)\<close>. The text of a \<^verbatim>\<open>TypeError\<close> depends on the operands and is never asked for
  (the evaluator catches it); it is rendered by its name.
\<close>

fun exn_str :: "exn \<Rightarrow> string" where
  "exn_str TypeError = ''TypeError''"
| "exn_str StopIteration = []"
| "exn_str (GraphNotFoundError gid) = ''Graph not found: '' @ gid"
| "exn_str (RunNotFoundError rid) = ''Run not found: '' @ rid"
| "exn_str (ValidationError errs) = ''Graph validation failed''"
| "exn_str (ToolNotFoundError t) = ''Tool not found: '' @ t"
| "exn_str (LoopLimitError n m) =
     ''Loop limit exceeded at node '' @ quoted n @ '': max '' @ str_int m @ '' iterations''"
| "exn_str (NodeExecutionError n m) =
     ''Node execution failed at '' @ quoted n @ '': '' @ m"
| "exn_str RecursionError = ''maximum recursion depth exceeded in comparison''"

section \<open>Storage (app/storage/backend.py, InMemoryStorage)\<close>

record storage =
  graphs :: "string \<rightharpoonup> GraphConfig"
  runs :: "string \<rightharpoonup> RunData"

definition save_graph :: "storage \<Rightarrow> string \<Rightarrow> GraphConfig \<Rightarrow> storage" where
  "save_graph st gid config = st\<lparr>graphs := (graphs st)(gid \<mapsto> config)\<rparr>"

definition load_graph :: "storage \<Rightarrow> string \<Rightarrow> exn + GraphConfig" where
  "load_graph st gid =
     (case graphs st gid of None \<Rightarrow> Inl (GraphNotFoundError gid) | Some g \<Rightarrow> Inr g)"

definition save_run :: "storage \<Rightarrow> string \<Rightarrow> RunData \<Rightarrow> storage" where
  "save_run st rid run_data = st\<lparr>runs := (runs st)(rid \<mapsto> run_data)\<rparr>"

definition load_run :: "storage \<Rightarrow> string \<Rightarrow> exn + RunData" where
  "load_run st rid =
     (case runs st rid of None \<Rightarrow> Inl (RunNotFoundError rid) | Some r \<Rightarrow> Inr r)"

section \<open>State manager (app/engine/state_manager.py)\<close>

text \<open>
  \<^verbatim>\<open>d.update(u)\<close>: the pairs of \<open>u\<close> are written into \<open>d\<close> one after the other; a key already
  present keeps its place and takes the new value, a new key goes to the end.
\<close>

definition dict_update :: "(string \<times> 'a) list \<Rightarrow> (string \<times> 'a) list \<Rightarrow> (string \<times> 'a) list" where
  "dict_update d u = fold (\<lambda>(k, v). AList.update k v) u d"

definition initialize :: "storage \<Rightarrow> string \<Rightarrow> string \<Rightarrow> pydict \<Rightarrow> RunData \<times> storage" where
  "initialize st rid gid initial_state =
     (let run_data = \<lparr>run_id = rid, graph_id = gid, current_state = initial_state,
                       status = ''running'', execution_log = []\<rparr>
      in (run_data, save_run st rid run_data))"

definition get_state :: "storage \<Rightarrow> string \<Rightarrow> exn + pydict" where
  "get_state st rid =
     (case load_run st rid of Inl e \<Rightarrow> Inl e | Inr run_data \<Rightarrow> Inr (current_state run_data))"

definition update_state :: "storage \<Rightarrow> string \<Rightarrow> pydict \<Rightarrow> (exn + pydict) \<times> storage" where
  "update_state st rid updates =
     (case load_run st rid of
        Inl e \<Rightarrow> (Inl e, st)
      | Inr run_data \<Rightarrow>
          (let run_data' = run_data\<lparr>current_state := dict_update (current_state run_data) updates\<rparr>
           in (Inr (current_state run_data'), save_run st rid run_data')))"

definition complete_run :: "storage \<Rightarrow> string \<Rightarrow> string \<Rightarrow> (exn + RunData) \<times> storage" where
  "complete_run st rid new_status =
     (case load_run st rid of
        Inl e \<Rightarrow> (Inl e, st)
      | Inr run_data \<Rightarrow>
          (let run_data' = run_data\<lparr>status := new_status\<rparr>
           in (Inr run_data', save_run st rid run_data')))"

section \<open>Tool registry (app/tools/registry.py)\<close>

text \<open>
  A handler is called with a copy of the state and either raises (with the text of the
  exception) or returns a value; only a returned dict is merged into the state.
\<close>

datatype handler_result = Raises string | Returns pyval

type_synonym tool = "pydict \<Rightarrow> handler_result"

type_synonym tool_registry = "string \<rightharpoonup> tool"

definition tool_get :: "tool_registry \<Rightarrow> string \<Rightarrow> exn + tool" where
  "tool_get reg name =
     (case reg name of None \<Rightarrow> Inl (ToolNotFoundError name) | Some f \<Rightarrow> Inr f)"

section \<open>Graph manager (app/engine/graph_manager.py)\<close>

definition edge_errors :: "string set \<Rightarrow> EdgeConfig \<Rightarrow> string list \<Rightarrow> string list" where
  "edge_errors node_names edge errors =
     (let errors1 = (if source edge \<notin> node_names
                     then errors @ [''Edge source '' @ quoted (source edge) @ '' not found in nodes'']
                     else errors)
      in (if target edge \<notin> node_names
          then errors1 @ [''Edge target '' @ quoted (target edge) @ '' not found in nodes'']
          else errors1))"

definition loop_errors :: "string set \<Rightarrow> string \<Rightarrow> string list \<Rightarrow> string list" where
  "loop_errors node_names loop_node errors =
     (if loop_node \<notin> node_names
      then errors @ [''Loop node '' @ quoted loop_node @ '' not found in nodes'']
      else errors)"

text \<open>The list \<^verbatim>\<open>errors\<close> at the end of \<^verbatim>\<open>_validate_graph\<close>, before it is tested.\<close>

definition collect_errors :: "GraphConfig \<Rightarrow> string list" where
  "collect_errors config =
     (let node_names = set (map n_name (nodes config));
          errors0 = (if entry_node config \<notin> node_names
                     then [''Entry node '' @ quoted (entry_node config) @ '' not found in nodes'']
                     else []);
          errors1 = fold (edge_errors node_names) (edges config) errors0
      in (case loops config of
            None \<Rightarrow> errors1
          | Some ls \<Rightarrow> fold (loop_errors node_names) (map fst ls) errors1))"

definition validate_graph :: "GraphConfig \<Rightarrow> exn + unit" where
  "validate_graph config =
     (let errors = collect_errors config
      in if errors \<noteq> [] then Inl (ValidationError errors) else Inr ())"

definition create_graph :: "storage \<Rightarrow> string \<Rightarrow> GraphConfig \<Rightarrow> (exn + string) \<times> storage" where
  "create_graph st new_id config =
     (case validate_graph config of
        Inl e \<Rightarrow> (Inl e, st)
      | Inr _ \<Rightarrow> (Inr new_id, save_graph st new_id config))"

definition get_graph :: "storage \<Rightarrow> string \<Rightarrow> exn + GraphConfig" where
  "get_graph st gid = load_graph st gid"

section \<open>Workflow executor (app/engine/executor.py)\<close>

subsection \<open>Executing one node (WorkflowExecutor._execute_node)\<close>

text \<open>
  Every call that can raise is a branch: the \<^verbatim>\<open>next(...)\<close> over the nodes
  (\<^verbatim>\<open>StopIteration\<close>), the registry lookup, the reads of the run, the handler itself. The
  storage is returned as it stands when the function leaves, also on an exception.
  A handler is here a function of the value of the state: what it does to the objects
  inside the state it is handed is followed in the store model further down
  (\<open>execute_node_h\<close>). The \<^verbatim>\<open>ExecutionLog\<close> constructor checks \<^verbatim>\<open>duration_ms >= 0\<close>, a
  difference of two clock readings, which is left out with the clock.
\<close>

definition execute_node ::
  "tool_registry \<Rightarrow> string \<Rightarrow> string \<Rightarrow> GraphConfig \<Rightarrow> storage \<Rightarrow> (exn + ExecutionLog) \<times> storage" where
  "execute_node reg rid node_name graph st =
     (case find (\<lambda>n. n_name n = node_name) (nodes graph) of
        None \<Rightarrow> (Inl StopIteration, st)
      | Some node_config \<Rightarrow>
     (case tool_get reg (handler node_config) of
        Inl e \<Rightarrow> (Inl e, st)
      | Inr hdl \<Rightarrow>
     (case get_state st rid of
        Inl e \<Rightarrow> (Inl e, st)
      | Inr before \<Rightarrow>
     (case hdl before of
        Raises m \<Rightarrow> (Inl (NodeExecutionError node_name m), st)
      | Returns result \<Rightarrow>
     (case (case result of
              PDict updates \<Rightarrow> update_state st rid updates
            | _ \<Rightarrow> (Inr [], st)) of
        (Inl e, st') \<Rightarrow> (Inl e, st')
      | (Inr _, st') \<Rightarrow>
     (case get_state st' rid of
        Inl e \<Rightarrow> (Inl e, st')
      | Inr after \<Rightarrow>
          (Inr \<lparr>node = node_name, state_before = before, state_after = after,
                log_status = ''success''\<rparr>, st')))))))"

subsection \<open>Choosing the next node (WorkflowExecutor._get_next_node)\<close>

text \<open>The \<^verbatim>\<open>for edge in graph.edges\<close> loop, with its two \<^verbatim>\<open>continue\<close>s and its \<^verbatim>\<open>return\<close>.\<close>

fun scan_edges :: "string \<Rightarrow> pydict \<Rightarrow> EdgeConfig list \<Rightarrow> exn + string option" where
  "scan_edges current cur_state [] = Inr None"
| "scan_edges current cur_state (edge # rest) =
     (if source edge \<noteq> current then scan_edges current cur_state rest
      else (case e_condition edge of
              None \<Rightarrow> Inr (Some (target edge))
            | Some c \<Rightarrow>
                (case evaluate_condition c cur_state of
                   Inl e \<Rightarrow> Inl e
                 | Inr b \<Rightarrow> if \<not> b then scan_edges current cur_state rest
                            else Inr (Some (target edge)))))"

definition get_next_node :: "string \<Rightarrow> string \<Rightarrow> GraphConfig \<Rightarrow> storage \<Rightarrow> exn + string option" where
  "get_next_node current rid graph st =
     (case get_state st rid of
        Inl e \<Rightarrow> Inl e
      | Inr cur_state \<Rightarrow> scan_edges current cur_state (edges graph))"

subsection \<open>The traversal (WorkflowExecutor.execute)\<close>

text \<open>The local variables of \<^verbatim>\<open>execute\<close> that the \<^verbatim>\<open>while\<close> loop changes, and the storage.\<close>

record exec_vars =
  v_storage :: storage
  v_execution_log :: "ExecutionLog list"
  v_current_node :: "string option"
  v_loop_counts :: "(string \<times> int) list"

text \<open>\<^verbatim>\<open>graph.loops and current_node in graph.loops\<close>, then \<^verbatim>\<open>graph.loops[current_node]\<close>.\<close>

definition loop_lookup :: "GraphConfig \<Rightarrow> string \<Rightarrow> LoopConfig option" where
  "loop_lookup graph n = (case loops graph of None \<Rightarrow> None | Some ls \<Rightarrow> map_of ls n)"

text \<open>The last statement of the loop body: \<^verbatim>\<open>current_node = self._get_next_node(...)\<close>.\<close>

definition advance :: "string \<Rightarrow> string \<Rightarrow> GraphConfig \<Rightarrow> exec_vars \<Rightarrow> exn option \<times> exec_vars" where
  "advance rid cur graph v =
     (case get_next_node cur rid graph (v_storage v) of
        Inl e \<Rightarrow> (Some e, v)
      | Inr nxt \<Rightarrow> (None, v\<lparr>v_current_node := nxt\<rparr>))"

text \<open>
  One pass through the body of \<^verbatim>\<open>while current_node is not None\<close>, at node \<open>cur\<close>. The
  result is the exception that left the body, if any, and the variables as they stand then.
\<close>

definition loop_body ::
  "tool_registry \<Rightarrow> string \<Rightarrow> GraphConfig \<Rightarrow> string \<Rightarrow> exec_vars \<Rightarrow> exn option \<times> exec_vars" where
  "loop_body reg rid graph cur v =
     (case execute_node reg rid cur graph (v_storage v) of
        (Inl e, st) \<Rightarrow> (Some e, v\<lparr>v_storage := st\<rparr>)
      | (Inr log_entry, st) \<Rightarrow>
          (let v1 = v\<lparr>v_storage := st, v_execution_log := v_execution_log v @ [log_entry]\<rparr>
           in case loop_lookup graph cur of
                None \<Rightarrow> advance rid cur graph v1
              | Some loop_config \<Rightarrow>
                  (let n = (case map_of (v_loop_counts v1) cur of None \<Rightarrow> 0 | Some c \<Rightarrow> c) + 1;
                       v2 = v1\<lparr>v_loop_counts := AList.update cur n (v_loop_counts v1)\<rparr>
                   in if n > max_iterations loop_config
                      then (Some (LoopLimitError cur (max_iterations loop_config)), v2)
                      else (case get_state st rid of
                              Inl e \<Rightarrow> (Some e, v2)
                            | Inr cur_state \<Rightarrow>
                                (case evaluate_condition (l_condition loop_config) cur_state of
                                   Inl e \<Rightarrow> (Some e, v2)
                                 | Inr b \<Rightarrow> if b then (None, v2)
                                            else advance rid cur graph v2)))))"

text \<open>
  The \<^verbatim>\<open>while\<close> loop. It need not end (a cycle of unconditional edges without a loop
  policy runs forever), so the result is an option and \<open>None\<close> stands for a run that never
  returns.
\<close>

partial_function (option) while_loop ::
  "tool_registry \<Rightarrow> string \<Rightarrow> GraphConfig \<Rightarrow> exec_vars \<Rightarrow> (exn option \<times> exec_vars) option" where
  [code]: "while_loop reg rid graph v =
     (case v_current_node v of
        None \<Rightarrow> Some (None, v)
      | Some cur \<Rightarrow>
          (case loop_body reg rid graph cur v of
             (Some e, v') \<Rightarrow> Some (Some e, v')
           | (None, v') \<Rightarrow> while_loop reg rid graph v'))"

text \<open>The \<^verbatim>\<open>except Exception as e\<close> branch; an exception raised in it leaves \<^verbatim>\<open>execute\<close>.\<close>

definition on_exception ::
  "string \<Rightarrow> string \<Rightarrow> exn \<Rightarrow> exec_vars \<Rightarrow> storage \<Rightarrow> (exn + ExecutionResult) \<times> storage" where
  "on_exception rid gid e v st =
     (case complete_run st rid ''failed'' of
        (Inl e', st') \<Rightarrow> (Inl e', st')
      | (Inr _, st') \<Rightarrow>
          (case get_state st' rid of
             Inl e' \<Rightarrow> (Inl e', st')
           | Inr s \<Rightarrow>
               (Inr \<lparr>res_run_id = rid, res_graph_id = gid, res_status = ''failed'',
                     final_state = s, res_execution_log = v_execution_log v,
                     res_error = Some (exn_str e)\<rparr>, st')))"

text \<open>The variables as \<^verbatim>\<open>execute\<close> sets them before the loop.\<close>

definition start_vars :: "storage \<Rightarrow> GraphConfig \<Rightarrow> exec_vars" where
  "start_vars st graph =
     \<lparr>v_storage = st, v_execution_log = [],
      v_current_node = Some (entry_node graph), v_loop_counts = []\<rparr>"

text \<open>
  \<^verbatim>\<open>execute\<close>, with the fresh run id as an argument. \<^verbatim>\<open>get_graph\<close> is called outside the
  \<^verbatim>\<open>try\<close>, so its exception leaves the function.
\<close>

definition execute ::
  "tool_registry \<Rightarrow> storage \<Rightarrow> string \<Rightarrow> string \<Rightarrow> pydict
     \<Rightarrow> ((exn + ExecutionResult) \<times> storage) option" where
  "execute reg st rid gid initial_state =
     (case get_graph st gid of
        Inl e \<Rightarrow> Some (Inl e, st)
      | Inr graph \<Rightarrow>
          (let st1 = snd (initialize st rid gid initial_state)
           in case while_loop reg rid graph (start_vars st1 graph) of
                None \<Rightarrow> None
              | Some (Some e, v) \<Rightarrow> Some (on_exception rid gid e v (v_storage v))
              | Some (None, v) \<Rightarrow>
                  (case complete_run (v_storage v) rid ''completed'' of
                     (Inl e, st2) \<Rightarrow> Some (on_exception rid gid e v st2)
                   | (Inr run_data, st2) \<Rightarrow>
                       Some (Inr \<lparr>res_run_id = rid, res_graph_id = gid,
                                   res_status = ''completed'',
                                   final_state = current_state run_data,
                                   res_execution_log = v_execution_log v,
                                   res_error = None\<rparr>, st2))))"

text \<open>
  \<open>passes reg rid graph n v\<close>: the variables after \<open>n\<close> passes through the loop body from \<open>v\<close>,
  none of which raised; \<open>None\<close> when the loop ended or an exception was raised before that.
\<close>

fun passes ::
  "tool_registry \<Rightarrow> string \<Rightarrow> GraphConfig \<Rightarrow> nat \<Rightarrow> exec_vars \<Rightarrow> exec_vars option" where
  "passes reg rid graph 0 v = Some v"
| "passes reg rid graph (Suc n) v =
     (case v_current_node v of
        None \<Rightarrow> None
      | Some cur \<Rightarrow>
          (case loop_body reg rid graph cur v of
             (Some e, v') \<Rightarrow> None
           | (None, v') \<Rightarrow> passes reg rid graph n v'))"

section \<open>Reference notions and sample inputs\<close>





text \<open>
  The three reference invariants of a graph definition: the entry node, both ends of every
  edge and every loop key are node names. \<open>violations\<close> lists one message for each reference
  that is not, in the order entry node, edges (source before target), loop keys.
\<close>

definition node_names :: "GraphConfig \<Rightarrow> string set" where
  "node_names c = set (map n_name (nodes c))"

definition loop_keys :: "GraphConfig \<Rightarrow> string list" where
  "loop_keys c = (case loops c of None \<Rightarrow> [] | Some ls \<Rightarrow> map fst ls)"

definition references_ok :: "GraphConfig \<Rightarrow> bool" where
  "references_ok c =
     (entry_node c \<in> node_names c
      \<and> (\<forall>e \<in> set (edges c). source e \<in> node_names c \<and> target e \<in> node_names c)
      \<and> (\<forall>k \<in> set (loop_keys c). k \<in> node_names c))"

definition not_found :: "string \<Rightarrow> string \<Rightarrow> string" where
  "not_found what n = what @ '' '' @ quoted n @ '' not found in nodes''"

definition edge_violations :: "string set \<Rightarrow> EdgeConfig \<Rightarrow> string list" where
  "edge_violations names e =
     (if source e \<in> names then [] else [not_found ''Edge source'' (source e)])
     @ (if target e \<in> names then [] else [not_found ''Edge target'' (target e)])"

definition violations :: "GraphConfig \<Rightarrow> string list" where
  "violations c =
     (if entry_node c \<in> node_names c then [] else [not_found ''Entry node'' (entry_node c)])
     @ concat (map (edge_violations (node_names c)) (edges c))
     @ map (not_found ''Loop node'') (filter (\<lambda>k. k \<notin> node_names c) (loop_keys c))"

text \<open>A definition with four dangling references.\<close>

definition broken_graph :: GraphConfig where
  "broken_graph =
     \<lparr>g_name = ''broken'',
      nodes = [\<lparr>n_name = ''a'', handler = ''h'', description = None\<rparr>],
      edges = [\<lparr>source = ''a'', target = ''b'', e_condition = None\<rparr>,
               \<lparr>source = ''c'', target = ''a'', e_condition = None\<rparr>],
      entry_node = ''start'',
      loops = Some [(''d'', \<lparr>l_condition = \<lparr>c_field = ''x'', c_operator = ''eq'', c_value = PNone\<rparr>,
                             max_iterations = 2\<rparr>)]\<rparr>"

text \<open>
  Three nodes in a row: the first returns \<open>{a: 1}\<close>, the second \<open>{a: 2, b: 3}\<close>, the third
  a string.
\<close>

definition merge_graph :: GraphConfig where
  "merge_graph =
     \<lparr>g_name = ''merge'',
      nodes = [\<lparr>n_name = ''first'', handler = ''set_a'', description = None\<rparr>,
               \<lparr>n_name = ''second'', handler = ''set_a_b'', description = None\<rparr>,
               \<lparr>n_name = ''third'', handler = ''say_done'', description = None\<rparr>],
      edges = [\<lparr>source = ''first'', target = ''second'', e_condition = None\<rparr>,
               \<lparr>source = ''second'', target = ''third'', e_condition = None\<rparr>],
      entry_node = ''first'', loops = None\<rparr>"

definition merge_tools :: tool_registry where
  "merge_tools =
     [''set_a'' \<mapsto> (\<lambda>s. Returns (PDict [(''a'', PInt 1)])),
      ''set_a_b'' \<mapsto> (\<lambda>s. Returns (PDict [(''a'', PInt 2), (''b'', PInt 3)])),
      ''say_done'' \<mapsto> (\<lambda>s. Returns (PStr ''done''))]"

text \<open>A storage holding one running run \<open>r\<close> with the given state.\<close>

definition run_with :: "pydict \<Rightarrow> RunData" where
  "run_with s = \<lparr>run_id = ''r'', graph_id = ''g'', current_state = s,
                  status = ''running'', execution_log = []\<rparr>"

definition storage_with :: "pydict \<Rightarrow> storage" where
  "storage_with s = \<lparr>graphs = Map.empty, runs = [''r'' \<mapsto> run_with s]\<rparr>"

text \<open>The \<^verbatim>\<open>execution_log\<close> field of the stored record of a run, if the run is stored.\<close>

definition stored_log :: "storage \<Rightarrow> string \<Rightarrow> ExecutionLog list option" where
  "stored_log st rid = map_option execution_log (runs st rid)"

text \<open>A storage that holds the three-node graph under the id \<open>g\<close> and no run.\<close>

definition merge_storage :: storage where
  "merge_storage = \<lparr>graphs = [''g'' \<mapsto> merge_graph], runs = Map.empty\<rparr>"

text \<open>
  The three-node graph with the second node bound to the handler \<open>explode\<close>, which raises
  in \<open>fail_tools\<close> and is not registered in \<open>merge_tools\<close>.
\<close>

definition fail_graph :: GraphConfig where
  "fail_graph =
     merge_graph\<lparr>nodes := [\<lparr>n_name = ''first'', handler = ''set_a'', description = None\<rparr>,
                           \<lparr>n_name = ''second'', handler = ''explode'', description = None\<rparr>,
                           \<lparr>n_name = ''third'', handler = ''say_done'', description = None\<rparr>]\<rparr>"

definition fail_tools :: tool_registry where
  "fail_tools = merge_tools(''explode'' \<mapsto> (\<lambda>s. Raises ''boom''))"

definition fail_storage :: storage where
  "fail_storage = \<lparr>graphs = [''g'' \<mapsto> fail_graph], runs = Map.empty\<rparr>"



text \<open>
  The state after one successful call of handler \<open>h\<close> on state \<open>s\<close>: a returned dict is
  merged, anything else leaves \<open>s\<close> as it is.
\<close>

definition apply_tool :: "tool \<Rightarrow> pydict \<Rightarrow> pydict" where
  "apply_tool h s = (case h s of Returns (PDict u) \<Rightarrow> dict_update s u | _ \<Rightarrow> s)"

text \<open>
  A handler that counts its calls in the key \<open>n\<close>, and a graph whose node \<open>work\<close> runs it
  under a loop policy \<open>n > 0\<close> with \<open>max_iterations = 3\<close>. The node also has a conditional
  edge to itself and an unconditional edge to \<open>finish\<close>.
\<close>

definition bump :: tool where
  "bump s = (case dict_get s ''n'' of
               PInt i \<Rightarrow> Returns (PDict [(''n'', PInt (i + 1))])
             | _ \<Rightarrow> Returns (PDict [(''n'', PInt 1)]))"

definition loop_tools :: tool_registry where
  "loop_tools = [''bump'' \<mapsto> bump, ''say_done'' \<mapsto> (\<lambda>s. Returns (PStr ''done''))]"

definition n_positive :: ConditionConfig where
  "n_positive = \<lparr>c_field = ''n'', c_operator = ''gt'', c_value = PInt 0\<rparr>"

definition loop_graph :: GraphConfig where
  "loop_graph =
     \<lparr>g_name = ''loop'',
      nodes = [\<lparr>n_name = ''work'', handler = ''bump'', description = None\<rparr>,
               \<lparr>n_name = ''finish'', handler = ''say_done'', description = None\<rparr>],
      edges = [\<lparr>source = ''work'', target = ''work'', e_condition = Some n_positive\<rparr>,
               \<lparr>source = ''work'', target = ''finish'', e_condition = None\<rparr>],
      entry_node = ''work'',
      loops = Some [(''work'', \<lparr>l_condition = n_positive, max_iterations = 3\<rparr>)]\<rparr>"

definition loop_storage :: storage where
  "loop_storage = \<lparr>graphs = [''g'' \<mapsto> loop_graph], runs = Map.empty\<rparr>"

text \<open>The result of running \<open>loop_graph\<close> from the empty state, when \<^verbatim>\<open>execute\<close> returns one.\<close>

definition loop_run :: "ExecutionResult option" where
  "loop_run =
     (case execute loop_tools loop_storage ''r'' ''g'' [] of
        Some (Inr r, st') \<Rightarrow> Some r
      | _ \<Rightarrow> None)"

section \<open>State objects in a store: who shares what\<close>

text \<open>
  Python dicts and lists are objects, and \<^verbatim>\<open>d.copy()\<close> makes a new dict that holds the same
  values: a value that is itself a list or a dict is the same object in both. To follow
  this, values are kept in a store. A stored value is a scalar or the address of an
  object; an object is a list or a dict of stored values; the store is the list of all
  objects, an address is an index into it, and a new object goes to the end.
\<close>

type_synonym addr = nat

datatype hval = HNone | HBool bool | HInt int | HStr string | HRef addr

datatype hobj = HList "hval list" | HDict "(string \<times> hval) list"

type_synonym heap = "hobj list"

definition alloc :: "heap \<Rightarrow> hobj \<Rightarrow> addr \<times> heap" where
  "alloc hp ob = (length hp, hp @ [ob])"

definition heap_dict :: "heap \<Rightarrow> addr \<Rightarrow> (string \<times> hval) list option" where
  "heap_dict hp a =
     (if a < length hp then (case hp ! a of HDict d \<Rightarrow> Some d | HList xs \<Rightarrow> None) else None)"

text \<open>\<^verbatim>\<open>d.copy()\<close> on the dict at address \<open>a\<close>: a new dict object with the items of the old one.\<close>

definition dict_copy :: "heap \<Rightarrow> addr \<Rightarrow> exn + addr \<times> heap" where
  "dict_copy hp a =
     (case heap_dict hp a of None \<Rightarrow> Inl TypeError | Some d \<Rightarrow> Inr (alloc hp (HDict d)))"

text \<open>
  The value seen through a stored value, objects followed to the given depth (\<open>None\<close>
  when the depth does not suffice or an address is not in the store).
\<close>

fun view :: "nat \<Rightarrow> heap \<Rightarrow> hval \<Rightarrow> pyval option" where
  "view n hp HNone = Some PNone"
| "view n hp (HBool b) = Some (PBool b)"
| "view n hp (HInt i) = Some (PInt i)"
| "view n hp (HStr s) = Some (PStr s)"
| "view 0 hp (HRef a) = None"
| "view (Suc n) hp (HRef a) =
     (if a < length hp
      then (case hp ! a of
              HList xs \<Rightarrow> map_option PList (those (map (view n hp) xs))
            | HDict d \<Rightarrow>
                map_option PDict
                  (those (map (\<lambda>(k, v). map_option (Pair k) (view n hp v)) d)))
      else None)"

text \<open>
  The state manager over the store. Of the stored record of a run only the address of its
  \<^verbatim>\<open>current_state\<close> dict matters here. The pydantic constructors are taken to keep the
  dict they are handed; a constructor that stores a copy of it makes one more dict object
  with the same values, which no other code holds.
\<close>

type_synonym hstorage = "string \<rightharpoonup> addr"

definition initialize_h :: "heap \<Rightarrow> hstorage \<Rightarrow> string \<Rightarrow> addr \<Rightarrow> exn + heap \<times> hstorage" where
  "initialize_h hp sto rid initial_state =
     (case dict_copy hp initial_state of
        Inl e \<Rightarrow> Inl e
      | Inr (a, hp') \<Rightarrow> Inr (hp', sto(rid \<mapsto> a)))"

definition get_state_h :: "heap \<Rightarrow> hstorage \<Rightarrow> string \<Rightarrow> exn + addr \<times> heap" where
  "get_state_h hp sto rid =
     (case sto rid of None \<Rightarrow> Inl (RunNotFoundError rid) | Some a \<Rightarrow> dict_copy hp a)"

text \<open>
  \<^verbatim>\<open>run_data.current_state.update(updates)\<close> writes into the run's own dict object; the
  function then returns a copy of it.
\<close>

definition update_state_h ::
  "heap \<Rightarrow> hstorage \<Rightarrow> string \<Rightarrow> (string \<times> hval) list \<Rightarrow> exn + addr \<times> heap" where
  "update_state_h hp sto rid updates =
     (case sto rid of
        None \<Rightarrow> Inl (RunNotFoundError rid)
      | Some a \<Rightarrow>
          (case heap_dict hp a of
             None \<Rightarrow> Inl TypeError
           | Some d \<Rightarrow>
               dict_copy (hp[a := HDict (dict_update d updates)]) a))"

text \<open>
  A handler over the store: it is given the address of its argument, may write to the
  store and create objects, and raises or returns a stored value.
\<close>

datatype hresult = HRaises string | HReturns hval

type_synonym htool = "addr \<Rightarrow> heap \<Rightarrow> heap \<times> hresult"

record hlog =
  h_node :: string
  h_state_before :: addr
  h_state_after :: addr

text \<open>\<^verbatim>\<open>isinstance(result, dict)\<close>: the items of the dict a stored value refers to, if it does.\<close>

definition as_dict :: "heap \<Rightarrow> hval \<Rightarrow> (string \<times> hval) list option" where
  "as_dict hp v = (case v of HRef u \<Rightarrow> heap_dict hp u | _ \<Rightarrow> None)"

text \<open>
  \<^verbatim>\<open>_execute_node\<close> from the read of \<^verbatim>\<open>state_before\<close> on, with the handler already
  resolved: \<^verbatim>\<open>state_before\<close> is a copy of the run's dict, the handler gets a copy of
  that copy, a returned dict is merged into the run's dict, \<^verbatim>\<open>state_after\<close> is a
  further copy.
\<close>

definition execute_node_h ::
  "htool \<Rightarrow> string \<Rightarrow> string \<Rightarrow> heap \<Rightarrow> hstorage \<Rightarrow> (exn + hlog) \<times> heap" where
  "execute_node_h hdl rid node_name hp sto =
     (case get_state_h hp sto rid of
        Inl e \<Rightarrow> (Inl e, hp)
      | Inr (before, hp1) \<Rightarrow>
     (case dict_copy hp1 before of
        Inl e \<Rightarrow> (Inl e, hp1)
      | Inr (arg, hp2) \<Rightarrow>
     (case hdl arg hp2 of
        (hp3, HRaises m) \<Rightarrow> (Inl (NodeExecutionError node_name m), hp3)
      | (hp3, HReturns result) \<Rightarrow>
     (case (case as_dict hp3 result of
              Some updates \<Rightarrow> update_state_h hp3 sto rid updates
            | None \<Rightarrow> Inr (arg, hp3)) of
        Inl e \<Rightarrow> (Inl e, hp3)
      | Inr (_, hp4) \<Rightarrow>
     (case get_state_h hp4 sto rid of
        Inl e \<Rightarrow> (Inl e, hp4)
      | Inr (after, hp5) \<Rightarrow>
          (Inr \<lparr>h_node = node_name, h_state_before = before, h_state_after = after\<rparr>,
           hp5))))))"

text \<open>
  A handler that mutates only the mapping it receives: every object that was in the store
  when it was called, other than its argument, is as before when it returns.
\<close>

definition top_level_only :: "htool \<Rightarrow> bool" where
  "top_level_only hdl =
     (\<forall>a hp. length hp \<le> length (fst (hdl a hp))
            \<and> (\<forall>x < length hp. x \<noteq> a \<longrightarrow> fst (hdl a hp) ! x = hp ! x))"

text \<open>
  A caller whose state is \<open>{xs: []}\<close>: the list is object 0, the dict object 1. The handler
  \<open>append_one\<close> appends \<open>1\<close> to the list under \<open>xs\<close> of its argument and returns \<^verbatim>\<open>None\<close>;
  the handler \<open>set_tmp\<close> binds \<open>tmp\<close> in its argument and returns a new dict \<open>{n: 5}\<close>.
\<close>

definition alias_heap :: heap where
  "alias_heap = [HList [], HDict [(''xs'', HRef 0)]]"

definition append_one :: htool where
  "append_one a hp =
     (case heap_dict hp a of
        None \<Rightarrow> (hp, HRaises ''no state'')
      | Some d \<Rightarrow>
          (case map_of d ''xs'' of
             Some (HRef l) \<Rightarrow>
               (if l < length hp
                then (case hp ! l of
                        HList xs \<Rightarrow> (hp[l := HList (xs @ [HInt 1])], HReturns HNone)
                      | HDict _ \<Rightarrow> (hp, HRaises ''not a list''))
                else (hp, HRaises ''dangling''))
           | _ \<Rightarrow> (hp, HRaises ''no list'')))"

definition set_tmp :: htool where
  "set_tmp a hp =
     (case heap_dict hp a of
        None \<Rightarrow> (hp, HRaises ''no state'')
      | Some d \<Rightarrow>
          (let hp1 = hp[a := HDict (AList.update ''tmp'' (HInt 1) d)];
               (u, hp2) = alloc hp1 (HDict [(''n'', HInt 5)])
           in (hp2, HReturns (HRef u))))"

definition alias_init :: "exn + heap \<times> hstorage" where
  "alias_init = initialize_h alias_heap Map.empty ''r'' 1"

definition alias_exec :: "htool \<Rightarrow> (exn + hlog) \<times> heap" where
  "alias_exec hdl =
     (case alias_init of
        Inl e \<Rightarrow> (Inl e, alias_heap)
      | Inr (hp1, sto) \<Rightarrow> execute_node_h hdl ''r'' ''work'' hp1 sto)"

text \<open>The address of the run's own dict after \<open>alias_init\<close>.\<close>

definition alias_run_addr :: "addr option" where
  "alias_run_addr = (case alias_init of Inl e \<Rightarrow> None | Inr (hp1, sto) \<Rightarrow> sto ''r'')"

text \<open>The store after \<open>alias_init\<close>: the caller's two objects and the run's own dict.\<close>

definition alias_start :: heap where
  "alias_start = (case alias_init of Inl e \<Rightarrow> [] | Inr (hp1, sto) \<Rightarrow> hp1)"

text \<open>The handler \<open>return_arg\<close> binds \<open>tmp\<close> in its argument and returns that argument.\<close>

definition return_arg :: htool where
  "return_arg a hp =
     (case heap_dict hp a of
        None \<Rightarrow> (hp, HRaises ''no state'')
      | Some d \<Rightarrow> (hp[a := HDict (AList.update ''tmp'' (HInt 1) d)], HReturns (HRef a)))"

section \<open>Properties of the condition evaluator\<close>

lemma py_ord_raises_only_TypeError:
  "py_ord opr a b = Inl e \<Longrightarrow> e = TypeError"
  "py_ord_list opr xs ys = Inl e \<Longrightarrow> e = TypeError"
  by (induction opr a b and opr xs ys rule: py_ord_py_ord_list.induct)
     (auto split: option.splits if_splits)

lemma operators_raise_only_TypeError:
  "map_of operators name = Some f \<Longrightarrow> f a b = Inl e \<Longrightarrow> e = TypeError"
  by (auto simp: operators_def py_ord_raises_only_TypeError split: if_splits)

lemma operators_dom:
  "map_of operators name = None \<longleftrightarrow> name \<notin> set [''eq'', ''ne'', ''gt'', ''lt'', ''gte'', ''lte'']"
  by (simp add: operators_def)

lemma dict_get_missing:
  "map_of s k = None \<Longrightarrow> dict_get (s @ [(k, PNone)]) k = dict_get s k"
  by (simp add: dict_get_def map_of_append map_add_def)

lemma evaluate_condition_Inr: "\<exists>b. evaluate_condition c s = Inr b"
proof (cases "map_of operators (c_operator c)")
  case None
  then have "evaluate_condition c s = Inr False" by (simp add: evaluate_condition_def)
  then show ?thesis by blast
next
  case (Some f)
  show ?thesis
  proof (cases "f (dict_get s (c_field c)) (c_value c)")
    case (Inl e)
    with Some have "e = TypeError" by (rule operators_raise_only_TypeError)
    with Some Inl have "evaluate_condition c s = Inr False" by (simp add: evaluate_condition_def)
    then show ?thesis by blast
  next
    case (Inr b)
    with Some show ?thesis by (simp add: evaluate_condition_def)
  qed
qed

subsection \<open>The evaluator under the recursion limit\<close>

lemma depth_pos: "1 \<le> depth a"
  by (cases a) simp_all

lemma depth_not_zero: "depth a \<noteq> 0"
  using depth_pos [of a] by simp

lemma py_eq_list_length: "py_eq_list xs ys \<Longrightarrow> length xs = length ys"
proof (induction xs arbitrary: ys)
  case Nil
  then show ?case by (cases ys) simp_all
next
  case (Cons x xs)
  then show ?case by (cases ys) auto
qed

lemma py_eq_list_Nil: "py_eq_list [] ys \<longleftrightarrow> ys = []"
  by (cases ys) simp_all

lemma py_eq_list_Nil2: "py_eq_list xs [] \<longleftrightarrow> xs = []"
  by (cases xs) simp_all

lemma depth_map_of: "map_of e k = Some w \<Longrightarrow> depth w \<le> depth_dict e"
  by (induction e) (auto split: if_splits)

lemma py_eq_depth_left:
  "depth a \<le> n \<Longrightarrow> py_eq_depth n a b = Inr (py_eq a b)"
  "depth_list xs \<le> n \<Longrightarrow> py_eq_list_depth n xs ys = Inr (py_eq_list xs ys)"
  "depth_dict d \<le> n \<Longrightarrow> py_eq_dict_depth n d e = Inr (py_eq_dict d e)"
proof (induction n a b and n xs ys and n d e
       rule: py_eq_depth_py_eq_list_depth_py_eq_dict_depth.induct)
qed (use py_eq_list_length in
      \<open>auto simp: depth_not_zero py_eq_list_Nil py_eq_list_Nil2 split: option.splits\<close>)


lemma depth_map_of_le: "map_of e k = Some w \<Longrightarrow> depth_dict e \<le> n \<Longrightarrow> depth w \<le> n"
  using depth_map_of [of e k w] by simp

lemma py_eq_depth_right:
  "depth b \<le> n \<Longrightarrow> py_eq_depth n a b = Inr (py_eq a b)"
  "depth_list ys \<le> n \<Longrightarrow> py_eq_list_depth n xs ys = Inr (py_eq_list xs ys)"
  "depth_dict e \<le> n \<Longrightarrow> py_eq_dict_depth n d e = Inr (py_eq_dict d e)"
proof (induction n a b and n xs ys and n d e
       rule: py_eq_depth_py_eq_list_depth_py_eq_dict_depth.induct)
qed (use py_eq_list_length in
      \<open>auto simp: depth_not_zero py_eq_list_Nil py_eq_list_Nil2 depth_map_of_le
            split: option.splits\<close>)

lemma py_ord_depth_left:
  "depth a \<le> n \<Longrightarrow> py_ord_depth n opr a b = py_ord opr a b"
  "depth_list xs \<le> n \<Longrightarrow> py_ord_list_depth n opr xs ys = py_ord_list opr xs ys"
proof (induction n opr a b and n opr xs ys rule: py_ord_depth_py_ord_list_depth.induct)
qed (auto simp: depth_not_zero py_eq_depth_left)

lemma py_ord_depth_right:
  "depth b \<le> n \<Longrightarrow> py_ord_depth n opr a b = py_ord opr a b"
  "depth_list ys \<le> n \<Longrightarrow> py_ord_list_depth n opr xs ys = py_ord_list opr xs ys"
proof (induction n opr a b and n opr xs ys rule: py_ord_depth_py_ord_list_depth.induct)
qed (auto simp: depth_not_zero py_eq_depth_right)

lemma py_eq_depth_raises:
  "py_eq_depth n a b = Inl x \<Longrightarrow> x = RecursionError"
  "py_eq_list_depth n xs ys = Inl x \<Longrightarrow> x = RecursionError"
  "py_eq_dict_depth n d e = Inl x \<Longrightarrow> x = RecursionError"
proof (induction n a b and n xs ys and n d e
       rule: py_eq_depth_py_eq_list_depth_py_eq_dict_depth.induct)
qed (auto split: option.splits sum.splits if_splits)

lemma py_ord_depth_raises:
  "py_ord_depth n opr a b = Inl x \<Longrightarrow> x = TypeError \<or> x = RecursionError"
  "py_ord_list_depth n opr xs ys = Inl x \<Longrightarrow> x = TypeError \<or> x = RecursionError"
proof (induction n opr a b and n opr xs ys rule: py_ord_depth_py_ord_list_depth.induct)
qed (auto split: option.splits sum.splits if_splits
          dest: py_eq_depth_raises py_ord_raises_only_TypeError)


lemma operators_depth_dom:
  "map_of (operators_depth n) name = None
   \<longleftrightarrow> name \<notin> set [''eq'', ''ne'', ''gt'', ''lt'', ''gte'', ''lte'']"
  by (simp add: operators_depth_def)

lemma operators_depth_raise:
  "map_of (operators_depth n) name = Some f \<Longrightarrow> f a b = Inl x
   \<Longrightarrow> x = TypeError \<or> x = RecursionError"
  by (auto simp: operators_depth_def split: if_splits sum.splits
           dest: py_eq_depth_raises py_ord_depth_raises)

lemma operators_depth_agree:
  assumes "depth a \<le> n \<or> depth b \<le> n"
      and "map_of (operators_depth n) name = Some f"
  shows "\<exists>f'. map_of operators name = Some f' \<and> f a b = f' a b"
  using assms
  by (auto simp: operators_depth_def operators_def py_eq_depth_left py_eq_depth_right
                 py_ord_depth_left py_ord_depth_right split: if_splits)

lemma evaluate_condition_depth_raises:
  "evaluate_condition_depth n c s = Inl x \<Longrightarrow> x = RecursionError"
proof (cases "map_of (operators_depth n) (c_operator c)")
  case None
  then show "evaluate_condition_depth n c s = Inl x \<Longrightarrow> x = RecursionError"
    by (simp add: evaluate_condition_depth_def)
next
  case (Some f)
  assume a: "evaluate_condition_depth n c s = Inl x"
  show "x = RecursionError"
  proof (cases "f (dict_get s (c_field c)) (c_value c)")
    case (Inl y)
    with Some have "y = TypeError \<or> y = RecursionError" by (rule operators_depth_raise)
    with a Some Inl show ?thesis by (auto simp: evaluate_condition_depth_def)
  next
    case (Inr b)
    with a Some show ?thesis by (simp add: evaluate_condition_depth_def)
  qed
qed

lemma evaluate_condition_depth_agree:
  assumes "depth (dict_get s (c_field c)) \<le> n \<or> depth (c_value c) \<le> n"
  shows "evaluate_condition_depth n c s = evaluate_condition c s"
proof (cases "map_of (operators_depth n) (c_operator c)")
  case None
  then have "map_of operators (c_operator c) = None"
    by (simp add: operators_depth_dom operators_dom)
  with None show ?thesis
    by (simp add: evaluate_condition_depth_def evaluate_condition_def)
next
  case (Some f)
  from operators_depth_agree [OF assms Some] obtain f' where
    "map_of operators (c_operator c) = Some f'"
    "f (dict_get s (c_field c)) (c_value c) = f' (dict_get s (c_field c)) (c_value c)"
    by blast
  with Some show ?thesis
    by (simp add: evaluate_condition_depth_def evaluate_condition_def)
qed

lemma nest_raises: "py_eq_depth n (nest n) (nest n) = Inl RecursionError"
  by (induction n) simp_all

text \<open>
  Claim C3, as the code has it. With \<open>n\<close> levels of recursion left, the evaluator lets no
  exception out but \<^verbatim>\<open>RecursionError\<close>. When the state's value or the condition's value
  takes no more than \<open>n\<close> levels, it returns a boolean, the one \<open>evaluate_condition\<close> gives.
  At every \<open>n\<close>: a field missing from the state is compared as \<^verbatim>\<open>None\<close>, an operator outside
  the six names gives false, and a comparison that raises \<^verbatim>\<open>TypeError\<close> gives false.
\<close>

theorem evaluate_condition_depth_total:
  "(\<forall>x. evaluate_condition_depth n c s = Inl x \<longrightarrow> x = RecursionError)
   \<and> (depth (dict_get s (c_field c)) \<le> n \<or> depth (c_value c) \<le> n \<longrightarrow>
        (\<exists>b. evaluate_condition_depth n c s = Inr b)
        \<and> evaluate_condition_depth n c s = evaluate_condition c s)
   \<and> (map_of s (c_field c) = None \<longrightarrow>
        evaluate_condition_depth n c s
          = evaluate_condition_depth n c (s @ [(c_field c, PNone)]))
   \<and> (c_operator c \<notin> set [''eq'', ''ne'', ''gt'', ''lt'', ''gte'', ''lte''] \<longrightarrow>
        evaluate_condition_depth n c s = Inr False)
   \<and> (\<forall>op_func. map_of (operators_depth n) (c_operator c) = Some op_func
         \<and> op_func (dict_get s (c_field c)) (c_value c) = Inl TypeError \<longrightarrow>
        evaluate_condition_depth n c s = Inr False)"
proof (intro conjI impI allI)
  fix x assume "evaluate_condition_depth n c s = Inl x"
  then show "x = RecursionError" by (rule evaluate_condition_depth_raises)
next
  assume d: "depth (dict_get s (c_field c)) \<le> n \<or> depth (c_value c) \<le> n"
  then show eq: "evaluate_condition_depth n c s = evaluate_condition c s"
    by (rule evaluate_condition_depth_agree)
  from evaluate_condition_Inr [of c s] eq
  show "\<exists>b. evaluate_condition_depth n c s = Inr b" by simp
next
  assume "map_of s (c_field c) = None"
  then show "evaluate_condition_depth n c s
               = evaluate_condition_depth n c (s @ [(c_field c, PNone)])"
    by (simp add: evaluate_condition_depth_def dict_get_missing)
next
  assume "c_operator c \<notin> set [''eq'', ''ne'', ''gt'', ''lt'', ''gte'', ''lte'']"
  then have "map_of (operators_depth n) (c_operator c) = None"
    by (simp add: operators_depth_dom)
  then show "evaluate_condition_depth n c s = Inr False"
    by (simp add: evaluate_condition_depth_def)
next
  fix op_func
  assume "map_of (operators_depth n) (c_operator c) = Some op_func
         \<and> op_func (dict_get s (c_field c)) (c_value c) = Inl TypeError"
  then show "evaluate_condition_depth n c s = Inr False"
    by (simp add: evaluate_condition_depth_def)
qed

text \<open>
  The theorem with a thousand levels left, at four inputs: a string against a number under
  \<open>gt\<close> (the comparison raises \<^verbatim>\<open>TypeError\<close>), a missing field, an unknown operator, and a
  well-typed comparison.
\<close>

theorem evaluate_condition_depth_total_witness:
  "evaluate_condition_depth 1000 \<lparr>c_field = ''x'', c_operator = ''gt'', c_value = PInt 5\<rparr>
       [(''x'', PStr ''high'')] = Inr False
   \<and> evaluate_condition_depth 1000 \<lparr>c_field = ''x'', c_operator = ''gt'', c_value = PInt 5\<rparr> []
       = Inr False
   \<and> evaluate_condition_depth 1000 \<lparr>c_field = ''x'', c_operator = ''between'', c_value = PInt 5\<rparr>
       [(''x'', PInt 9)] = Inr False
   \<and> evaluate_condition_depth 1000 \<lparr>c_field = ''x'', c_operator = ''gt'', c_value = PInt 5\<rparr>
       [(''x'', PInt 9)] = Inr True"
proof -
  let ?gt = "\<lparr>c_field = ''x'', c_operator = ''gt'', c_value = PInt 5\<rparr>"
  let ?bt = "\<lparr>c_field = ''x'', c_operator = ''between'', c_value = PInt 5\<rparr>"
  have d: "depth (c_value ?gt) \<le> 1000" "depth (c_value ?bt) \<le> 1000" by simp_all
  have e: "evaluate_condition ?gt [(''x'', PStr ''high'')] = Inr False"
    "evaluate_condition ?gt [] = Inr False"
    "evaluate_condition ?bt [(''x'', PInt 9)] = Inr False"
    "evaluate_condition ?gt [(''x'', PInt 9)] = Inr True"
    by (simp_all add: evaluate_condition_def operators_def dict_get_def)
  from evaluate_condition_depth_total [of 1000 ?gt "[(''x'', PStr ''high'')]"] d
  have 1: "evaluate_condition_depth 1000 ?gt [(''x'', PStr ''high'')]
             = evaluate_condition ?gt [(''x'', PStr ''high'')]" by blast
  from evaluate_condition_depth_total [of 1000 ?gt "[]"] d
  have 2: "evaluate_condition_depth 1000 ?gt [] = evaluate_condition ?gt []" by blast
  from evaluate_condition_depth_total [of 1000 ?bt "[(''x'', PInt 9)]"] d
  have 3: "evaluate_condition_depth 1000 ?bt [(''x'', PInt 9)]
             = evaluate_condition ?bt [(''x'', PInt 9)]" by blast
  from evaluate_condition_depth_total [of 1000 ?gt "[(''x'', PInt 9)]"] d
  have 4: "evaluate_condition_depth 1000 ?gt [(''x'', PInt 9)]
             = evaluate_condition ?gt [(''x'', PInt 9)]" by blast
  from 1 2 3 4 e show ?thesis by simp
qed

text \<open>
  The claim as the specification words it (never raises) fails. A state value and a
  condition value that are both the empty list inside a thousand lists are equal, yet
  with a thousand levels left the \<open>eq\<close> comparison raises \<^verbatim>\<open>RecursionError\<close>, and the
  evaluator, which catches \<^verbatim>\<open>TypeError\<close> only, lets it out. The same holds at every number
  of levels (\<open>nest_raises\<close>).
\<close>

theorem evaluate_condition_raises_counterexample:
  "evaluate_condition_depth 1000
     \<lparr>c_field = ''x'', c_operator = ''eq'', c_value = nest 1000\<rparr> [(''x'', nest 1000)]
     = Inl RecursionError"
  using nest_raises [of 1000]
  by (simp add: evaluate_condition_depth_def operators_depth_def dict_get_def)

section \<open>Edge selection\<close>




section \<open>Graph validation\<close>

lemma fold_edge_errors:
  "fold (edge_errors N) es acc = acc @ concat (map (edge_violations N) es)"
  by (induction es arbitrary: acc)
     (simp_all add: edge_errors_def edge_violations_def not_found_def Let_def)

lemma fold_loop_errors:
  "fold (loop_errors N) ks acc = acc @ map (not_found ''Loop node'') (filter (\<lambda>k. k \<notin> N) ks)"
  by (induction ks arbitrary: acc) (simp_all add: loop_errors_def not_found_def)

lemma collect_errors_violations: "collect_errors c = violations c"
  by (cases "loops c")
     (simp_all add: collect_errors_def violations_def node_names_def loop_keys_def Let_def
                    fold_edge_errors fold_loop_errors not_found_def)

lemma violations_Nil_iff: "violations c = [] \<longleftrightarrow> references_ok c"
  by (auto simp: violations_def references_ok_def edge_violations_def filter_empty_conv
           split: if_splits)

text \<open>
  Claim C4. \<^verbatim>\<open>_validate_graph\<close> accepts a definition exactly when the entry node, every
  edge source and target and every loop key is a node name. Otherwise it raises
  \<^verbatim>\<open>ValidationError\<close> with the full list of violations: the message for a missing entry
  node, for every dangling edge end and for every dangling loop key is in the list. It
  takes no storage; \<^verbatim>\<open>create_graph\<close> leaves the storage as it was when validation fails.
\<close>

theorem validate_graph_reports_all:
  "(validate_graph c = Inr () \<longleftrightarrow> references_ok c)
   \<and> (\<not> references_ok c \<longrightarrow> validate_graph c = Inl (ValidationError (violations c)))
   \<and> (entry_node c \<notin> node_names c \<longrightarrow>
        not_found ''Entry node'' (entry_node c) \<in> set (violations c))
   \<and> (\<forall>e \<in> set (edges c).
        (source e \<notin> node_names c \<longrightarrow> not_found ''Edge source'' (source e) \<in> set (violations c))
        \<and> (target e \<notin> node_names c \<longrightarrow> not_found ''Edge target'' (target e) \<in> set (violations c)))
   \<and> (\<forall>k \<in> set (loop_keys c).
        k \<notin> node_names c \<longrightarrow> not_found ''Loop node'' k \<in> set (violations c))
   \<and> (\<forall>e. validate_graph c = Inl e \<longrightarrow> create_graph st new_id c = (Inl e, st))"
proof (intro conjI)
  show "validate_graph c = Inr () \<longleftrightarrow> references_ok c"
    by (simp add: validate_graph_def collect_errors_violations violations_Nil_iff)
  show "\<not> references_ok c \<longrightarrow> validate_graph c = Inl (ValidationError (violations c))"
    by (simp add: validate_graph_def collect_errors_violations violations_Nil_iff)
  show "entry_node c \<notin> node_names c \<longrightarrow>
        not_found ''Entry node'' (entry_node c) \<in> set (violations c)"
    by (simp add: violations_def)
  show "\<forall>e \<in> set (edges c).
        (source e \<notin> node_names c \<longrightarrow> not_found ''Edge source'' (source e) \<in> set (violations c))
        \<and> (target e \<notin> node_names c \<longrightarrow> not_found ''Edge target'' (target e) \<in> set (violations c))"
    by (auto simp: violations_def edge_violations_def)
  show "\<forall>k \<in> set (loop_keys c).
        k \<notin> node_names c \<longrightarrow> not_found ''Loop node'' k \<in> set (violations c)"
    by (auto simp: violations_def)
  show "\<forall>e. validate_graph c = Inl e \<longrightarrow> create_graph st new_id c = (Inl e, st)"
    by (simp add: create_graph_def)
qed

text \<open>The broken definition is rejected with its four messages, and nothing is stored.\<close>

theorem validate_graph_reports_all_witness:
  "\<not> references_ok broken_graph
   \<and> validate_graph broken_graph
       = Inl (ValidationError
           [''Entry node '' @ quoted ''start'' @ '' not found in nodes'',
            ''Edge target '' @ quoted ''b'' @ '' not found in nodes'',
            ''Edge source '' @ quoted ''c'' @ '' not found in nodes'',
            ''Loop node '' @ quoted ''d'' @ '' not found in nodes''])
   \<and> create_graph \<lparr>graphs = Map.empty, runs = Map.empty\<rparr> ''g'' broken_graph
       = (Inl (ValidationError (violations broken_graph)), \<lparr>graphs = Map.empty, runs = Map.empty\<rparr>)"
  using validate_graph_reports_all
          [of broken_graph "\<lparr>graphs = Map.empty, runs = Map.empty\<rparr>" "''g''"]
  by (simp add: references_ok_def node_names_def loop_keys_def broken_graph_def violations_def
                edge_violations_def not_found_def)

section \<open>State merge\<close>

text \<open>
  Reading the merged dict: the pairs of the update win over the old bindings, and among
  pairs of the update with the same key the later one wins.
\<close>

lemma map_of_dict_update:
  "map_of (dict_update s u) = map_of s ++ map_of (rev u)"
proof (induction u arbitrary: s)
  case Nil
  show ?case by (simp add: dict_update_def)
next
  case (Cons p u)
  obtain k v where p: "p = (k, v)" by (cases p)
  have "dict_update s (p # u) = dict_update (AList.update k v s) u"
    by (simp add: dict_update_def p)
  then have "map_of (dict_update s (p # u)) = map_of (AList.update k v s) ++ map_of (rev u)"
    by (simp add: Cons.IH)
  also have "\<dots> = map_of s ++ map_of (rev (p # u))"
    by (simp add: p update_conv' map_of_append fun_eq_iff map_add_def split: option.splits)
  finally show ?case .
qed

lemma map_of_rev_distinct:
  "distinct (map fst u) \<Longrightarrow> map_of (rev u) = map_of u"
proof (induction u)
  case Nil
  show ?case by simp
next
  case (Cons p u)
  then have "fst p \<notin> dom (map_of u)" and IH: "map_of (rev u) = map_of u"
    by (simp_all add: dom_map_of_conv_image_fst)
  then show ?case
    by (cases p) (auto simp: map_of_append IH fun_eq_iff map_add_def split: option.splits)
qed

section \<open>The traversal loop\<close>

lemma while_loop_None: "v_current_node v = None \<Longrightarrow> while_loop reg rid g v = Some (None, v)"
  by (subst while_loop.simps) simp

lemma while_loop_raise:
  "v_current_node v = Some cur \<Longrightarrow> loop_body reg rid g cur v = (Some e, v')
   \<Longrightarrow> while_loop reg rid g v = Some (Some e, v')"
  by (subst while_loop.simps) simp

lemma while_loop_pass:
  "v_current_node v = Some cur \<Longrightarrow> loop_body reg rid g cur v = (None, v')
   \<Longrightarrow> while_loop reg rid g v = while_loop reg rid g v'"
  by (subst while_loop.simps) simp

lemma while_loop_passes:
  "passes reg rid g n v = Some v' \<Longrightarrow> while_loop reg rid g v = while_loop reg rid g v'"
proof (induction n arbitrary: v)
  case 0
  then show ?case by simp
next
  case (Suc n)
  from Suc.prems obtain cur where cur: "v_current_node v = Some cur"
    by (auto split: option.splits)
  from Suc.prems cur obtain v1 where
    body: "loop_body reg rid g cur v = (None, v1)" and rest: "passes reg rid g n v1 = Some v'"
    by (auto split: option.splits prod.splits)
  from while_loop_pass [OF cur body] Suc.IH [OF rest] show ?case by simp
qed

lemma while_loop_invariant:
  assumes run: "while_loop reg rid g v = Some (eo, v')"
      and init: "I v"
      and step: "\<And>cur v eo v'. I v \<Longrightarrow> v_current_node v = Some cur
                   \<Longrightarrow> loop_body reg rid g cur v = (eo, v') \<Longrightarrow> I v'"
  shows "I v'"
proof -
  let ?P = "\<lambda>reg1 rid1 g1 v res. reg1 = reg \<and> rid1 = rid \<and> g1 = g \<and> I v \<longrightarrow> I (snd res)"
  have "?P reg rid g v (eo, v')"
  proof (rule while_loop.raw_induct [where P = ?P, OF _ run])
    fix loop reg1 rid1 g1 v res
    assume IH: "\<And>reg2 rid2 g2 v2 res2. loop reg2 rid2 g2 v2 = Some res2 \<Longrightarrow> ?P reg2 rid2 g2 v2 res2"
      and body: "(case v_current_node v of
                    None \<Rightarrow> Some (None, v)
                  | Some cur \<Rightarrow>
                      (case loop_body reg1 rid1 g1 cur v of
                         (None, v') \<Rightarrow> loop reg1 rid1 g1 v'
                       | (Some e, v') \<Rightarrow> Some (Some e, v'))) = Some res"
    show "?P reg1 rid1 g1 v res"
    proof (intro impI)
      assume a: "reg1 = reg \<and> rid1 = rid \<and> g1 = g \<and> I v"
      then have Iv: "I v" by simp
      show "I (snd res)"
      proof (cases "v_current_node v")
        case None
        with body Iv show ?thesis by auto
      next
        case (Some cur)
        obtain eo1 v1 where lb: "loop_body reg rid g cur v = (eo1, v1)"
          by (cases "loop_body reg rid g cur v")
        from step [OF Iv Some lb] have Iv1: "I v1" .
        show ?thesis
        proof (cases eo1)
          case None
          with body Some lb a have "loop reg1 rid1 g1 v1 = Some res" by simp
          from IH [OF this] Iv1 a show ?thesis by simp
        next
          case (Some e)
          with body \<open>v_current_node v = Some cur\<close> lb Iv1 a show ?thesis by auto
        qed
      qed
    qed
  qed
  with init show ?thesis by simp
qed

lemma passes_invariant:
  assumes run: "passes reg rid g n v = Some v'"
      and init: "I v"
      and step: "\<And>cur v eo v'. I v \<Longrightarrow> v_current_node v = Some cur
                   \<Longrightarrow> loop_body reg rid g cur v = (eo, v') \<Longrightarrow> I v'"
  shows "I v'"
  using run init
proof (induction n arbitrary: v)
  case 0
  then show ?case by simp
next
  case (Suc n)
  from Suc.prems(1) obtain cur where cur: "v_current_node v = Some cur"
    by (auto split: option.splits)
  from Suc.prems(1) cur obtain v1 where
    body: "loop_body reg rid g cur v = (None, v1)" and rest: "passes reg rid g n v1 = Some v'"
    by (auto split: option.splits prod.splits)
  from step [OF Suc.prems(2) cur body] have "I v1" .
  from Suc.IH [OF rest this] show ?case .
qed

section \<open>What one node execution and one pass of the loop change\<close>

lemma execute_node_entry:
  "execute_node reg rid nm g st = (Inr entry, st')
   \<Longrightarrow> node entry = nm \<and> log_status entry = ''success''"
  by (auto simp: execute_node_def split: option.splits sum.splits handler_result.splits
                 prod.splits)

lemma update_state_stored_log:
  "stored_log (snd (update_state st rid u)) rid = stored_log st rid"
  by (auto simp: update_state_def stored_log_def load_run_def save_run_def Let_def
           split: option.splits)

lemma complete_run_stored_log:
  "stored_log (snd (complete_run st rid new_status)) rid = stored_log st rid"
  by (auto simp: complete_run_def stored_log_def load_run_def save_run_def Let_def
           split: option.splits)

lemma execute_node_stored_log:
  "execute_node reg rid nm g st = (r, st') \<Longrightarrow> stored_log st' rid = stored_log st rid"
proof -
  assume a: "execute_node reg rid nm g st = (r, st')"
  have u: "update_state st rid u = (x, s1) \<Longrightarrow> stored_log s1 rid = stored_log st rid" for u x s1
    using update_state_stored_log [of st rid u] by simp
  from a show ?thesis
    by (auto simp: execute_node_def dest: u
             split: option.splits sum.splits handler_result.splits prod.splits pyval.splits)
qed

lemma loop_body_frame:
  assumes "loop_body reg rid g cur v = (eo, v')"
      and "execute_node reg rid cur g (v_storage v) = (r, st')"
  shows "v_storage v' = st'"
    and "v_execution_log v'
           = (case r of Inl e \<Rightarrow> v_execution_log v | Inr entry \<Rightarrow> v_execution_log v @ [entry])"
    and "v_current_node v = Some cur \<Longrightarrow> eo \<noteq> None \<or> v_current_node v' = Some cur
           \<or> (\<exists>nxt. get_next_node cur rid g st' = Inr nxt \<and> v_current_node v' = nxt)"
    and "\<forall>e. r = Inl e \<longrightarrow> eo = Some e \<and> v' = v\<lparr>v_storage := st'\<rparr>"
  using assms
  by (auto simp: loop_body_def advance_def Let_def
           split: sum.splits option.splits if_splits prod.splits)

lemma loop_body_stored_log:
  assumes "loop_body reg rid g cur v = (eo, v')"
  shows "stored_log (v_storage v') rid = stored_log (v_storage v) rid"
proof -
  obtain r st' where en: "execute_node reg rid cur g (v_storage v) = (r, st')"
    by (cases "execute_node reg rid cur g (v_storage v)")
  from loop_body_frame(1) [OF assms en] execute_node_stored_log [OF en]
  show ?thesis by simp
qed

lemma loop_body_log_success:
  assumes "loop_body reg rid g cur v = (eo, v')"
      and "\<forall>e \<in> set (v_execution_log v). log_status e = ''success''"
  shows "\<forall>e \<in> set (v_execution_log v'). log_status e = ''success''"
proof -
  obtain r st' where en: "execute_node reg rid cur g (v_storage v) = (r, st')"
    by (cases "execute_node reg rid cur g (v_storage v)")
  show ?thesis
  proof (cases r)
    case (Inl e)
    with loop_body_frame(2) [OF assms(1) en] assms(2) show ?thesis by simp
  next
    case (Inr entry)
    with en execute_node_entry have "log_status entry = ''success''" by blast
    with Inr loop_body_frame(2) [OF assms(1) en] assms(2) show ?thesis by simp
  qed
qed

lemma initialize_stored_log:
  "stored_log (snd (initialize st rid gid init)) rid = Some []"
  by (simp add: initialize_def stored_log_def save_run_def Let_def)

lemma on_exception_stored_log:
  "on_exception rid gid e v s = (res, st') \<Longrightarrow> stored_log st' rid = stored_log s rid"
  using complete_run_stored_log [of s rid "''failed''"]
  by (auto simp: on_exception_def split: prod.splits sum.splits)

lemma on_exception_log:
  "on_exception rid gid e v s = (Inr r, st') \<Longrightarrow> res_execution_log r = v_execution_log v"
  by (auto simp: on_exception_def split: prod.splits sum.splits)

text \<open>What \<^verbatim>\<open>execute\<close> returns, in terms of the outcome of the loop.\<close>

lemma execute_cases:
  assumes g: "get_graph st gid = Inr g"
      and ex: "execute reg st rid gid init = Some (res, st')"
  obtains eo v where
    "while_loop reg rid g (start_vars (snd (initialize st rid gid init)) g) = Some (eo, v)"
    "stored_log st' rid = stored_log (v_storage v) rid"
    "\<forall>r. res = Inr r \<longrightarrow> res_execution_log r = v_execution_log v"
proof -
  let ?v0 = "start_vars (snd (initialize st rid gid init)) g"
  from g ex obtain eo v where w: "while_loop reg rid g ?v0 = Some (eo, v)"
    by (cases "while_loop reg rid g ?v0") (auto simp: execute_def Let_def)
  show thesis
  proof (cases eo)
    case (Some e)
    with g ex w have oe: "on_exception rid gid e v (v_storage v) = (res, st')"
      by (simp add: execute_def Let_def)
    from on_exception_stored_log [OF oe] on_exception_log oe
    show thesis by (intro that [OF w]) auto
  next
    case None
    obtain c s2 where cr: "complete_run (v_storage v) rid ''completed'' = (c, s2)"
      by (cases "complete_run (v_storage v) rid ''completed''")
    with complete_run_stored_log [of "v_storage v" rid "''completed''"]
    have s2: "stored_log s2 rid = stored_log (v_storage v) rid" by simp
    show thesis
    proof (cases c)
      case (Inl e)
      with g ex w None cr have oe: "on_exception rid gid e v s2 = (res, st')"
        by (simp add: execute_def Let_def)
      from on_exception_stored_log [OF oe] on_exception_log oe s2
      show thesis by (intro that [OF w]) auto
    next
      case (Inr rd)
      with g ex w None cr s2 show thesis
        by (intro that [OF w]) (auto simp: execute_def Let_def)
    qed
  qed
qed

section \<open>The stored record of a run\<close>

text \<open>
  Claim C9. Once \<^verbatim>\<open>execute\<close> has found the graph, the \<^verbatim>\<open>execution_log\<close> of the stored
  record of the run is the empty list: right after \<^verbatim>\<open>initialize\<close>, after any number of
  passes through the loop, and in the storage \<^verbatim>\<open>execute\<close> leaves behind, whatever the
  outcome. \<^verbatim>\<open>complete_run\<close> does not touch the field. The trace lives only in the local
  list that goes into the result.
\<close>

theorem stored_execution_log_stays_empty:
  assumes "get_graph st gid = Inr g"
  shows "stored_log (snd (initialize st rid gid init)) rid = Some []
         \<and> (\<forall>n v. passes reg rid g n (start_vars (snd (initialize st rid gid init)) g) = Some v
               \<longrightarrow> stored_log (v_storage v) rid = Some [])
         \<and> (\<forall>res st'. execute reg st rid gid init = Some (res, st')
               \<longrightarrow> stored_log st' rid = Some [])
         \<and> (\<forall>s new_status. stored_log (snd (complete_run s rid new_status)) rid = stored_log s rid)"
proof (intro conjI allI impI)
  let ?v0 = "start_vars (snd (initialize st rid gid init)) g"
  let ?I = "\<lambda>v. stored_log (v_storage v) rid = Some []"
  have I0: "?I ?v0" by (simp add: start_vars_def initialize_stored_log)
  have step: "?I v \<Longrightarrow> v_current_node v = Some cur \<Longrightarrow> loop_body reg rid g cur v = (eo, v')
              \<Longrightarrow> ?I v'" for cur v eo v'
    using loop_body_stored_log [of reg rid g cur v eo v'] by simp
  show "stored_log (snd (initialize st rid gid init)) rid = Some []"
    by (rule initialize_stored_log)
  show "stored_log (v_storage v) rid = Some []"
    if "passes reg rid g n ?v0 = Some v" for n v
    using that I0 step by (rule passes_invariant [where I = ?I])
  show "stored_log st' rid = Some []"
    if ex: "execute reg st rid gid init = Some (res, st')" for res st'
  proof -
    from assms ex obtain eo v where
      w: "while_loop reg rid g ?v0 = Some (eo, v)" and
      s: "stored_log st' rid = stored_log (v_storage v) rid"
      by (rule execute_cases)
    from w I0 step have "?I v" by (rule while_loop_invariant [where I = ?I])
    with s show ?thesis by simp
  qed
  show "stored_log (snd (complete_run s rid new_status)) rid = stored_log s rid" for s new_status
    by (rule complete_run_stored_log)
qed

lemma merge_run:
  "case execute merge_tools merge_storage ''r'' ''g'' [(''z'', PInt 0)] of
     Some (Inr r, st') \<Rightarrow>
       res_status r = ''completed''
       \<and> map node (res_execution_log r) = [''first'', ''second'', ''third'']
       \<and> final_state r = [(''z'', PInt 0), (''a'', PInt 2), (''b'', PInt 3)]
   | _ \<Rightarrow> False"
  by code_simp

text \<open>
  The three-node run completes with a trace of three entries, and the stored record of the
  run still has an empty log.
\<close>

theorem stored_execution_log_stays_empty_witness:
  "\<exists>r st'. execute merge_tools merge_storage ''r'' ''g'' [(''z'', PInt 0)] = Some (Inr r, st')
     \<and> length (res_execution_log r) = 3
     \<and> stored_log st' ''r'' = Some []"
proof -
  have g: "get_graph merge_storage ''g'' = Inr merge_graph"
    by (simp add: get_graph_def load_graph_def merge_storage_def)
  from merge_run obtain r st' where
    ex: "execute merge_tools merge_storage ''r'' ''g'' [(''z'', PInt 0)] = Some (Inr r, st')"
    and tr: "map node (res_execution_log r) = [''first'', ''second'', ''third'']"
    by (auto split: option.splits prod.splits sum.splits)
  from tr have "length (map node (res_execution_log r)) = 3" by simp
  then have len: "length (res_execution_log r) = 3" by simp
  from stored_execution_log_stays_empty [OF g, of "''r''" "[(''z'', PInt 0)]" merge_tools] ex
  have "stored_log st' ''r'' = Some []" by blast
  with ex len show ?thesis by blast
qed

section \<open>Outcome of the trace entries\<close>

text \<open>
  Claim C10. Every entry of the trace has status \<open>success\<close>: in the local list after any
  number of passes through the loop and in the list of every result \<^verbatim>\<open>execute\<close> returns.
  A node execution that raises leaves the pass with that exception and adds no entry, so
  no entry with another status is ever made.
\<close>

theorem trace_entries_all_success:
  assumes "get_graph st gid = Inr g"
  shows "(\<forall>n v. passes reg rid g n (start_vars (snd (initialize st rid gid init)) g) = Some v
            \<longrightarrow> (\<forall>e \<in> set (v_execution_log v). log_status e = ''success''))
         \<and> (\<forall>r st'. execute reg st rid gid init = Some (Inr r, st')
            \<longrightarrow> (\<forall>e \<in> set (res_execution_log r). log_status e = ''success''))
         \<and> (\<forall>v cur e st1 eo v'. execute_node reg rid cur g (v_storage v) = (Inl e, st1)
               \<and> loop_body reg rid g cur v = (eo, v')
            \<longrightarrow> eo = Some e \<and> v_execution_log v' = v_execution_log v)"
proof (intro conjI allI impI)
  let ?v0 = "start_vars (snd (initialize st rid gid init)) g"
  let ?I = "\<lambda>v. \<forall>e \<in> set (v_execution_log v). log_status e = ''success''"
  have I0: "?I ?v0" by (simp add: start_vars_def)
  have step: "?I v \<Longrightarrow> v_current_node v = Some cur \<Longrightarrow> loop_body reg rid g cur v = (eo, v')
              \<Longrightarrow> ?I v'" for cur v eo v'
    using loop_body_log_success [of reg rid g cur v eo v'] by simp
  show "?I v" if "passes reg rid g n ?v0 = Some v" for n v
    using that I0 step by (rule passes_invariant [where I = ?I])
  show "\<forall>e \<in> set (res_execution_log r). log_status e = ''success''"
    if ex: "execute reg st rid gid init = Some (Inr r, st')" for r st'
  proof -
    from assms ex obtain eo v where
      w: "while_loop reg rid g ?v0 = Some (eo, v)" and
      l: "res_execution_log r = v_execution_log v"
      by (rule execute_cases) auto
    from w I0 step have "?I v" by (rule while_loop_invariant [where I = ?I])
    with l show ?thesis by simp
  qed
next
  fix v cur e st1 eo v'
  assume a: "execute_node reg rid cur g (v_storage v) = (Inl e, st1)
             \<and> loop_body reg rid g cur v = (eo, v')"
  then have lb: "loop_body reg rid g cur v = (eo, v')"
    and en: "execute_node reg rid cur g (v_storage v) = (Inl e, st1)" by simp_all
  from loop_body_frame(2,4) [OF lb en]
  show "eo = Some e" and "v_execution_log v' = v_execution_log v" by simp_all
qed

lemma fail_run:
  "case execute fail_tools fail_storage ''r'' ''g'' [(''z'', PInt 0)] of
     Some (Inr r, st') \<Rightarrow>
       res_status r = ''failed''
       \<and> map node (res_execution_log r) = [''first'']
       \<and> map log_status (res_execution_log r) = [''success'']
       \<and> final_state r = [(''z'', PInt 0), (''a'', PInt 1)]
       \<and> res_error r = Some (''Node execution failed at '' @ quoted ''second'' @ '': boom'')
   | _ \<Rightarrow> False"
  by code_simp

text \<open>
  A run that fails at its second node: the result is \<open>failed\<close>, its trace has the one
  entry of the first node, and that entry says \<open>success\<close>.
\<close>

theorem trace_entries_all_success_witness:
  "\<exists>r st'. execute fail_tools fail_storage ''r'' ''g'' [(''z'', PInt 0)] = Some (Inr r, st')
     \<and> res_status r = ''failed''
     \<and> map node (res_execution_log r) = [''first'']
     \<and> (\<forall>e \<in> set (res_execution_log r). log_status e = ''success'')"
proof -
  have g: "get_graph fail_storage ''g'' = Inr fail_graph"
    by (simp add: get_graph_def load_graph_def fail_storage_def)
  from fail_run obtain r st' where
    ex: "execute fail_tools fail_storage ''r'' ''g'' [(''z'', PInt 0)] = Some (Inr r, st')"
    and f: "res_status r = ''failed''" "map node (res_execution_log r) = [''first'']"
    by (auto split: option.splits prod.splits sum.splits)
  from trace_entries_all_success [OF g, of fail_tools "''r''" "[(''z'', PInt 0)]"] ex
  have "\<forall>e \<in> set (res_execution_log r). log_status e = ''success''" by blast
  with ex f show ?thesis by simp
qed

section \<open>Failure of a node\<close>

lemma loop_body_pass_log:
  assumes "loop_body reg rid g cur v = (None, v')"
  shows "length (v_execution_log v') = Suc (length (v_execution_log v))"
proof -
  obtain r st' where en: "execute_node reg rid cur g (v_storage v) = (r, st')"
    by (cases "execute_node reg rid cur g (v_storage v)")
  from loop_body_frame(4) [OF assms en] obtain entry where "r = Inr entry"
    by (cases r) auto
  with loop_body_frame(2) [OF assms en] show ?thesis by simp
qed

lemma passes_log_length:
  "passes reg rid g n v = Some v'
   \<Longrightarrow> length (v_execution_log v') = length (v_execution_log v) + n"
proof (induction n arbitrary: v)
  case 0
  then show ?case by simp
next
  case (Suc n)
  from Suc.prems obtain cur where cur: "v_current_node v = Some cur"
    by (auto split: option.splits)
  from Suc.prems cur obtain v1 where
    body: "loop_body reg rid g cur v = (None, v1)" and rest: "passes reg rid g n v1 = Some v'"
    by (auto split: option.splits prod.splits)
  from Suc.IH [OF rest] loop_body_pass_log [OF body] show ?case by simp
qed

lemma execute_node_fails:
  assumes "find (\<lambda>n. n_name n = cur) (nodes g) = Some nc"
      and "get_state st rid = Inr s"
  shows "reg (handler nc) = None
         \<Longrightarrow> execute_node reg rid cur g st = (Inl (ToolNotFoundError (handler nc)), st)"
    and "reg (handler nc) = Some h \<Longrightarrow> h s = Raises m
         \<Longrightarrow> execute_node reg rid cur g st = (Inl (NodeExecutionError cur m), st)"
  using assms by (simp_all add: execute_node_def tool_get_def)

lemma on_exception_result:
  assumes "get_state st rid = Inr s"
  shows "\<exists>st'. on_exception rid gid e v st
           = (Inr \<lparr>res_run_id = rid, res_graph_id = gid, res_status = ''failed'',
                   final_state = s, res_execution_log = v_execution_log v,
                   res_error = Some (exn_str e)\<rparr>, st')
         \<and> map_option status (runs st' rid) = Some ''failed''
         \<and> get_state st' rid = Inr s"
  using assms
  by (auto simp: on_exception_def complete_run_def get_state_def load_run_def save_run_def
                 Let_def split: option.splits)

lemma execute_raise:
  assumes g: "get_graph st gid = Inr g"
      and p: "passes reg rid g n (start_vars (snd (initialize st rid gid init)) g) = Some v"
      and cur: "v_current_node v = Some cur"
      and en: "execute_node reg rid cur g (v_storage v) = (Inl e, v_storage v)"
  shows "execute reg st rid gid init = Some (on_exception rid gid e v (v_storage v))"
proof -
  obtain eo v' where lb: "loop_body reg rid g cur v = (eo, v')"
    by (cases "loop_body reg rid g cur v")
  from loop_body_frame(4) [OF lb en] have "eo = Some e" and "v' = v" by simp_all
  with lb have "loop_body reg rid g cur v = (Some e, v)" by simp
  from while_loop_raise [OF cur this] while_loop_passes [OF p]
  have "while_loop reg rid g (start_vars (snd (initialize st rid gid init)) g) = Some (Some e, v)"
    by simp
  with g show ?thesis by (simp add: execute_def Let_def)
qed

text \<open>
  Claim C7. Let the run have made \<open>n\<close> passes through the loop and stand at node \<open>cur\<close> with
  state \<open>s\<close>. If the handler of \<open>cur\<close> is not registered, or is registered and raises on
  \<open>s\<close>, then \<^verbatim>\<open>execute\<close> returns at once: the result has status \<open>failed\<close>, its final state is
  \<open>s\<close>, its trace is the list accumulated before (\<open>n\<close> entries, none for the failed attempt),
  and its error is the text of the exception. The stored run has status \<open>failed\<close> and
  still holds \<open>s\<close>.
\<close>

theorem node_failure_fails_run:
  assumes "get_graph st gid = Inr g"
      and "passes reg rid g n (start_vars (snd (initialize st rid gid init)) g) = Some v"
      and "v_current_node v = Some cur"
      and "find (\<lambda>n. n_name n = cur) (nodes g) = Some nc"
      and "get_state (v_storage v) rid = Inr s"
      and "reg (handler nc) = None \<or> (\<exists>h m. reg (handler nc) = Some h \<and> h s = Raises m)"
  shows "\<exists>r st'. execute reg st rid gid init = Some (Inr r, st')
           \<and> res_status r = ''failed''
           \<and> final_state r = s
           \<and> res_execution_log r = v_execution_log v
           \<and> length (res_execution_log r) = n
           \<and> (reg (handler nc) = None
                \<longrightarrow> res_error r = Some (exn_str (ToolNotFoundError (handler nc))))
           \<and> (\<forall>h m. reg (handler nc) = Some h \<and> h s = Raises m
                \<longrightarrow> res_error r = Some (exn_str (NodeExecutionError cur m)))
           \<and> map_option status (runs st' rid) = Some ''failed''
           \<and> get_state st' rid = Inr s"
proof -
  from passes_log_length [OF assms(2)] have len: "length (v_execution_log v) = n"
    by (simp add: start_vars_def)
  from assms(6) show ?thesis
  proof
    assume none: "reg (handler nc) = None"
    let ?e = "ToolNotFoundError (handler nc)"
    have "execute_node reg rid cur g (v_storage v) = (Inl ?e, v_storage v)"
      using assms(4,5) none by (rule execute_node_fails(1))
    then have "execute reg st rid gid init = Some (on_exception rid gid ?e v (v_storage v))"
      by (rule execute_raise [OF assms(1,2,3)])
    with on_exception_result [OF assms(5), of gid ?e v] len none show ?thesis by auto
  next
    assume "\<exists>h m. reg (handler nc) = Some h \<and> h s = Raises m"
    then obtain h m where h: "reg (handler nc) = Some h" and m: "h s = Raises m" by blast
    let ?e = "NodeExecutionError cur m"
    have "execute_node reg rid cur g (v_storage v) = (Inl ?e, v_storage v)"
      using assms(4,5) h m by (rule execute_node_fails(2))
    then have "execute reg st rid gid init = Some (on_exception rid gid ?e v (v_storage v))"
      by (rule execute_raise [OF assms(1,2,3)])
    with on_exception_result [OF assms(5), of gid ?e v] len h m show ?thesis by auto
  qed
qed

lemma fail_passes:
  "case passes fail_tools ''r'' fail_graph 1
          (start_vars (snd (initialize fail_storage ''r'' ''g'' [(''z'', PInt 0)])) fail_graph) of
     Some v \<Rightarrow> v_current_node v = Some ''second''
               \<and> get_state (v_storage v) ''r'' = Inr [(''z'', PInt 0), (''a'', PInt 1)]
   | None \<Rightarrow> False"
  by code_simp

lemma unregistered_passes:
  "case passes merge_tools ''r'' fail_graph 1
          (start_vars (snd (initialize fail_storage ''r'' ''g'' [(''z'', PInt 0)])) fail_graph) of
     Some v \<Rightarrow> v_current_node v = Some ''second''
               \<and> get_state (v_storage v) ''r'' = Inr [(''z'', PInt 0), (''a'', PInt 1)]
   | None \<Rightarrow> False"
  by code_simp

text \<open>
  The run over \<open>fail_graph\<close> fails at its second node, with the raising handler and with
  the handler missing from the registry: one trace entry, the state the first node left.
\<close>

theorem node_failure_fails_run_witness:
  "(\<exists>r st'. execute fail_tools fail_storage ''r'' ''g'' [(''z'', PInt 0)] = Some (Inr r, st')
      \<and> res_status r = ''failed''
      \<and> final_state r = [(''z'', PInt 0), (''a'', PInt 1)]
      \<and> length (res_execution_log r) = 1
      \<and> res_error r = Some (''Node execution failed at '' @ quoted ''second'' @ '': boom''))
   \<and> (\<exists>r st'. execute merge_tools fail_storage ''r'' ''g'' [(''z'', PInt 0)] = Some (Inr r, st')
      \<and> res_status r = ''failed''
      \<and> final_state r = [(''z'', PInt 0), (''a'', PInt 1)]
      \<and> length (res_execution_log r) = 1
      \<and> res_error r = Some (''Tool not found: explode''))"
proof -
  have g: "get_graph fail_storage ''g'' = Inr fail_graph"
    by (simp add: get_graph_def load_graph_def fail_storage_def)
  have n: "find (\<lambda>n. n_name n = ''second'') (nodes fail_graph)
             = Some \<lparr>n_name = ''second'', handler = ''explode'', description = None\<rparr>"
    by (simp add: fail_graph_def)
  from fail_passes obtain v where
    p: "passes fail_tools ''r'' fail_graph 1
          (start_vars (snd (initialize fail_storage ''r'' ''g'' [(''z'', PInt 0)])) fail_graph) = Some v"
    and c: "v_current_node v = Some ''second''"
    and s: "get_state (v_storage v) ''r'' = Inr [(''z'', PInt 0), (''a'', PInt 1)]"
    by (auto split: option.splits)
  have h: "fail_tools (handler \<lparr>n_name = ''second'', handler = ''explode'', description = None\<rparr>) = None
           \<or> (\<exists>h m. fail_tools (handler \<lparr>n_name = ''second'', handler = ''explode'', description = None\<rparr>)
                       = Some h \<and> h [(''z'', PInt 0), (''a'', PInt 1)] = Raises m)"
    by (simp add: fail_tools_def)
  from unregistered_passes obtain w where
    p': "passes merge_tools ''r'' fail_graph 1
          (start_vars (snd (initialize fail_storage ''r'' ''g'' [(''z'', PInt 0)])) fail_graph) = Some w"
    and c': "v_current_node w = Some ''second''"
    and s': "get_state (v_storage w) ''r'' = Inr [(''z'', PInt 0), (''a'', PInt 1)]"
    by (auto split: option.splits)
  have h': "merge_tools (handler \<lparr>n_name = ''second'', handler = ''explode'', description = None\<rparr>) = None
           \<or> (\<exists>h m. merge_tools (handler \<lparr>n_name = ''second'', handler = ''explode'', description = None\<rparr>)
                       = Some h \<and> h [(''z'', PInt 0), (''a'', PInt 1)] = Raises m)"
    by (simp add: merge_tools_def)
  have t: "fail_tools ''explode'' = Some (\<lambda>s. Raises ''boom'')"
    and t': "merge_tools ''explode'' = None"
    by (simp_all add: fail_tools_def merge_tools_def)
  from node_failure_fails_run [OF g p c n s h] t
  have a: "\<exists>r st'. execute fail_tools fail_storage ''r'' ''g'' [(''z'', PInt 0)] = Some (Inr r, st')
      \<and> res_status r = ''failed''
      \<and> final_state r = [(''z'', PInt 0), (''a'', PInt 1)]
      \<and> length (res_execution_log r) = 1
      \<and> res_error r = Some (''Node execution failed at '' @ quoted ''second'' @ '': boom'')"
    by auto
  from node_failure_fails_run [OF g p' c' n s' h'] t'
  have b: "\<exists>r st'. execute merge_tools fail_storage ''r'' ''g'' [(''z'', PInt 0)] = Some (Inr r, st')
      \<and> res_status r = ''failed''
      \<and> final_state r = [(''z'', PInt 0), (''a'', PInt 1)]
      \<and> length (res_execution_log r) = 1
      \<and> res_error r = Some (''Tool not found: explode'')"
    by auto
  from a b show ?thesis by (rule conjI)
qed

section \<open>Loop policies\<close>

lemma execute_node_ignores_edges:
  "execute_node reg rid cur (g\<lparr>edges := es\<rparr>) st = execute_node reg rid cur g st"
  by (simp add: execute_node_def)

lemma loop_body_continue:
  assumes "execute_node reg rid cur g (v_storage v) = (Inr entry, st')"
      and "loop_lookup g cur = Some lc"
      and "(case map_of (v_loop_counts v) cur of None \<Rightarrow> 0 | Some c \<Rightarrow> c) + 1 \<le> max_iterations lc"
      and "get_state st' rid = Inr cs"
      and "evaluate_condition (l_condition lc) cs = Inr True"
  shows "loop_body reg rid g cur v
           = (None, v\<lparr>v_storage := st',
                      v_execution_log := v_execution_log v @ [entry],
                      v_loop_counts :=
                        AList.update cur
                          ((case map_of (v_loop_counts v) cur of None \<Rightarrow> 0 | Some c \<Rightarrow> c) + 1)
                          (v_loop_counts v)\<rparr>)"
  using assms by (simp add: loop_body_def Let_def)

text \<open>
  Claim C6. At a node with a loop policy, when the node has run, the count is within the
  limit and the policy's condition is true on the state, the pass ends with the current
  node unchanged, so the loop runs the same node again. The edge list plays no part: the
  pass gives the same result for every edge list put in the graph's place.
\<close>

theorem loop_policy_precedes_edges:
  assumes "v_current_node v = Some cur"
      and "execute_node reg rid cur g (v_storage v) = (Inr entry, st')"
      and "loop_lookup g cur = Some lc"
      and "(case map_of (v_loop_counts v) cur of None \<Rightarrow> 0 | Some c \<Rightarrow> c) + 1 \<le> max_iterations lc"
      and "get_state st' rid = Inr cs"
      and "evaluate_condition (l_condition lc) cs = Inr True"
  shows "\<exists>v'. loop_body reg rid g cur v = (None, v')
           \<and> v_current_node v' = Some cur
           \<and> v_execution_log v' = v_execution_log v @ [entry]
           \<and> while_loop reg rid g v = while_loop reg rid g v'
           \<and> (\<forall>es. loop_body reg rid (g\<lparr>edges := es\<rparr>) cur v = (None, v'))"
proof -
  let ?v' = "v\<lparr>v_storage := st',
               v_execution_log := v_execution_log v @ [entry],
               v_loop_counts :=
                 AList.update cur
                   ((case map_of (v_loop_counts v) cur of None \<Rightarrow> 0 | Some c \<Rightarrow> c) + 1)
                   (v_loop_counts v)\<rparr>"
  have lb: "loop_body reg rid g cur v = (None, ?v')"
    using assms(2-6) by (rule loop_body_continue)
  have "loop_body reg rid (g\<lparr>edges := es\<rparr>) cur v = (None, ?v')" for es
  proof -
    have "execute_node reg rid cur (g\<lparr>edges := es\<rparr>) (v_storage v) = (Inr entry, st')"
      using assms(2) by (simp add: execute_node_ignores_edges)
    moreover have "loop_lookup (g\<lparr>edges := es\<rparr>) cur = Some lc"
      using assms(3) by (simp add: loop_lookup_def)
    ultimately show ?thesis
      using assms(4-6) by (rule loop_body_continue)
  qed
  moreover from while_loop_pass [OF assms(1) lb]
  have "while_loop reg rid g v = while_loop reg rid g ?v'" .
  moreover have "v_current_node ?v' = Some cur" using assms(1) by simp
  ultimately show ?thesis using lb by (intro exI [of _ ?v']) simp
qed

text \<open>
  The first pass over \<open>loop_graph\<close> from the empty state: \<open>work\<close> is the current node again,
  also when the only edge leads from \<open>work\<close> to \<open>finish\<close> without a condition.
\<close>

theorem loop_policy_precedes_edges_witness:
  "\<exists>v'. loop_body loop_tools ''r'' loop_graph ''work'' (start_vars (storage_with []) loop_graph)
           = (None, v')
     \<and> v_current_node v' = Some ''work''
     \<and> loop_body loop_tools ''r''
          (loop_graph\<lparr>edges := [\<lparr>source = ''work'', target = ''finish'', e_condition = None\<rparr>]\<rparr>)
          ''work'' (start_vars (storage_with []) loop_graph)
           = (None, v')"
proof -
  let ?v = "start_vars (storage_with []) loop_graph"
  let ?entry = "\<lparr>node = ''work'', state_before = [], state_after = [(''n'', PInt 1)],
                 log_status = ''success''\<rparr>"
  let ?lc = "\<lparr>l_condition = n_positive, max_iterations = 3\<rparr>"
  have c: "v_current_node ?v = Some ''work''"
    by (simp add: start_vars_def loop_graph_def)
  have e: "execute_node loop_tools ''r'' ''work'' loop_graph (v_storage ?v)
             = (Inr ?entry, storage_with [(''n'', PInt 1)])"
    by (simp add: start_vars_def execute_node_def loop_graph_def loop_tools_def tool_get_def
                  get_state_def load_run_def storage_with_def run_with_def bump_def dict_get_def
                  update_state_def save_run_def dict_update_def Let_def)
  have l: "loop_lookup loop_graph ''work'' = Some ?lc"
    by (simp add: loop_lookup_def loop_graph_def)
  have k: "(case map_of (v_loop_counts ?v) ''work'' of None \<Rightarrow> 0 | Some c \<Rightarrow> c) + 1
             \<le> max_iterations ?lc"
    by (simp add: start_vars_def)
  have s: "get_state (storage_with [(''n'', PInt 1)]) ''r'' = Inr [(''n'', PInt 1)]"
    by (simp add: get_state_def load_run_def storage_with_def run_with_def)
  have t: "evaluate_condition (l_condition ?lc) [(''n'', PInt 1)] = Inr True"
    by (simp add: evaluate_condition_def n_positive_def operators_def dict_get_def)
  from loop_policy_precedes_edges [OF c e l k s t] show ?thesis by blast
qed

section \<open>The iteration limit\<close>

lemma get_state_runs:
  "get_state st rid = Inr s \<longleftrightarrow> (\<exists>rd. runs st rid = Some rd \<and> current_state rd = s)"
  by (auto simp: get_state_def load_run_def split: option.splits)

lemma execute_node_ok:
  assumes nd: "find (\<lambda>n. n_name n = cur) (nodes g) = Some nc"
      and rg: "reg (handler nc) = Some h"
      and gs: "get_state st rid = Inr s"
      and hr: "h s = Returns r"
  shows "\<exists>entry st'. execute_node reg rid cur g st = (Inr entry, st')
           \<and> node entry = cur \<and> get_state st' rid = Inr (apply_tool h s)"
proof -
  from gs obtain rd where rd: "runs st rid = Some rd" "current_state rd = s"
    by (auto simp: get_state_runs)
  show ?thesis
  proof (cases "\<exists>u. r = PDict u")
    case True
    then obtain u where "r = PDict u" by blast
    with nd rg rd hr show ?thesis
      by (simp add: execute_node_def tool_get_def get_state_def load_run_def update_state_def
                    save_run_def apply_tool_def Let_def)
  next
    case False
    with nd rg rd hr show ?thesis
      by (cases r)
         (simp_all add: execute_node_def tool_get_def get_state_def load_run_def apply_tool_def)
  qed
qed

lemma loop_body_limit:
  assumes "execute_node reg rid cur g (v_storage v) = (Inr entry, st')"
      and "loop_lookup g cur = Some lc"
      and "(case map_of (v_loop_counts v) cur of None \<Rightarrow> 0 | Some c \<Rightarrow> c) + 1 > max_iterations lc"
  shows "loop_body reg rid g cur v
           = (Some (LoopLimitError cur (max_iterations lc)),
              v\<lparr>v_storage := st',
                v_execution_log := v_execution_log v @ [entry],
                v_loop_counts :=
                  AList.update cur
                    ((case map_of (v_loop_counts v) cur of None \<Rightarrow> 0 | Some c \<Rightarrow> c) + 1)
                    (v_loop_counts v)\<rparr>)"
  using assms by (simp add: loop_body_def Let_def)

lemma loop_until_limit:
  assumes nd: "find (\<lambda>n. n_name n = cur) (nodes g) = Some nc"
      and rg: "reg (handler nc) = Some h"
      and lk: "loop_lookup g cur = Some lc"
      and m0: "0 \<le> max_iterations lc"
      and ok: "\<forall>k. \<exists>r. h ((apply_tool h ^^ k) s0) = Returns r"
      and tr: "\<forall>k\<ge>1. evaluate_condition (l_condition lc) ((apply_tool h ^^ k) s0) = Inr True"
  shows "d = nat (max_iterations lc) - j \<Longrightarrow> j \<le> nat (max_iterations lc)
         \<Longrightarrow> v_current_node v = Some cur
         \<Longrightarrow> get_state (v_storage v) rid = Inr ((apply_tool h ^^ j) s0)
         \<Longrightarrow> (case map_of (v_loop_counts v) cur of None \<Rightarrow> 0 | Some c \<Rightarrow> c) = int j
         \<Longrightarrow> \<exists>v' es. while_loop reg rid g v
                        = Some (Some (LoopLimitError cur (max_iterations lc)), v')
                 \<and> v_execution_log v' = v_execution_log v @ es
                 \<and> length es = nat (max_iterations lc) + 1 - j
                 \<and> (\<forall>e \<in> set es. node e = cur)
                 \<and> get_state (v_storage v') rid
                     = Inr ((apply_tool h ^^ (nat (max_iterations lc) + 1)) s0)"
proof (induction d arbitrary: j v)
  case 0
  let ?n = "(case map_of (v_loop_counts v) cur of None \<Rightarrow> 0 | Some c \<Rightarrow> c) + 1"
  from 0 have j: "j = nat (max_iterations lc)" by simp
  from ok obtain r where r: "h ((apply_tool h ^^ j) s0) = Returns r" by blast
  from execute_node_ok [where reg = reg and h = h and s = "(apply_tool h ^^ j) s0", OF nd rg 0(4) r] obtain entry st' where
    en: "execute_node reg rid cur g (v_storage v) = (Inr entry, st')"
    and ne: "node entry = cur"
    and gs: "get_state st' rid = Inr (apply_tool h ((apply_tool h ^^ j) s0))"
    by blast
  let ?v2 = "v\<lparr>v_storage := st', v_execution_log := v_execution_log v @ [entry],
               v_loop_counts := AList.update cur ?n (v_loop_counts v)\<rparr>"
  from 0(5) j m0 have "?n > max_iterations lc" by simp
  with en lk have "loop_body reg rid g cur v = (Some (LoopLimitError cur (max_iterations lc)), ?v2)"
    by (rule loop_body_limit)
  from while_loop_raise [OF 0(3) this]
  have "while_loop reg rid g v = Some (Some (LoopLimitError cur (max_iterations lc)), ?v2)" .
  moreover have "v_execution_log ?v2 = v_execution_log v @ [entry]" by simp
  moreover have "length [entry] = nat (max_iterations lc) + 1 - j" using j by simp
  moreover have "\<forall>e \<in> set [entry]. node e = cur" using ne by simp
  moreover have "get_state (v_storage ?v2) rid
                   = Inr ((apply_tool h ^^ (nat (max_iterations lc) + 1)) s0)"
    using gs j by simp
  ultimately show ?case by blast
next
  case (Suc d)
  let ?n = "(case map_of (v_loop_counts v) cur of None \<Rightarrow> 0 | Some c \<Rightarrow> c) + 1"
  from Suc.prems have j: "Suc j \<le> nat (max_iterations lc)" by simp
  from ok obtain r where r: "h ((apply_tool h ^^ j) s0) = Returns r" by blast
  from execute_node_ok [where reg = reg and h = h and s = "(apply_tool h ^^ j) s0", OF nd rg Suc.prems(4) r] obtain entry st' where
    en: "execute_node reg rid cur g (v_storage v) = (Inr entry, st')"
    and ne: "node entry = cur"
    and gs: "get_state st' rid = Inr (apply_tool h ((apply_tool h ^^ j) s0))"
    by blast
  let ?v2 = "v\<lparr>v_storage := st', v_execution_log := v_execution_log v @ [entry],
               v_loop_counts := AList.update cur ?n (v_loop_counts v)\<rparr>"
  from gs have gs': "get_state st' rid = Inr ((apply_tool h ^^ Suc j) s0)" by simp
  have "1 \<le> Suc j" by simp
  with tr have t: "evaluate_condition (l_condition lc) ((apply_tool h ^^ Suc j) s0) = Inr True"
    by blast
  from Suc.prems(5) j have le: "?n \<le> max_iterations lc" by simp
  from en lk le gs' t have lb: "loop_body reg rid g cur v = (None, ?v2)"
    by (rule loop_body_continue)
  from while_loop_pass [OF Suc.prems(3) lb]
  have w: "while_loop reg rid g v = while_loop reg rid g ?v2" .
  have d: "d = nat (max_iterations lc) - Suc j" using Suc.prems(1) by simp
  have c2: "v_current_node ?v2 = Some cur" using Suc.prems(3) by simp
  have s2: "get_state (v_storage ?v2) rid = Inr ((apply_tool h ^^ Suc j) s0)" using gs' by simp
  have k2: "(case map_of (v_loop_counts ?v2) cur of None \<Rightarrow> 0 | Some c \<Rightarrow> c) = int (Suc j)"
    using Suc.prems(5) by (simp add: update_conv')
  from Suc.IH [OF d j c2 s2 k2] obtain v' es where
    r1: "while_loop reg rid g ?v2 = Some (Some (LoopLimitError cur (max_iterations lc)), v')"
    and r2: "v_execution_log v' = v_execution_log ?v2 @ es"
    and r3: "length es = nat (max_iterations lc) + 1 - Suc j"
    and r4: "\<forall>e \<in> set es. node e = cur"
    and r5: "get_state (v_storage v') rid = Inr ((apply_tool h ^^ (nat (max_iterations lc) + 1)) s0)"
    by blast
  from w r1 have "while_loop reg rid g v = Some (Some (LoopLimitError cur (max_iterations lc)), v')"
    by simp
  moreover from r2 have "v_execution_log v' = v_execution_log v @ (entry # es)" by simp
  moreover from r3 j have "length (entry # es) = nat (max_iterations lc) + 1 - j" by simp
  moreover from r4 ne have "\<forall>e \<in> set (entry # es). node e = cur" by simp
  ultimately show ?case using r5 by blast
qed

text \<open>
  Claim C1, as the code has it. Let the run reach, after \<open>n\<close> passes, a node \<open>cur\<close> that has
  a loop policy and has not run yet, with state \<open>s0\<close>. If the node's handler never raises
  and the policy's condition is true after every execution, then \<^verbatim>\<open>execute\<close> returns a
  \<open>failed\<close> result whose error is the text of \<^verbatim>\<open>LoopLimitError\<close> and whose trace is the
  earlier trace followed by exactly \<open>max_iterations + 1\<close> entries of \<open>cur\<close>: the limit is
  checked after the node has run, and the error is raised when the count exceeds it. The
  final state holds the merges of all these executions.
\<close>

theorem loop_limit_after_max_plus_one:
  assumes "get_graph st gid = Inr g"
      and "passes reg rid g n (start_vars (snd (initialize st rid gid init)) g) = Some v"
      and "v_current_node v = Some cur"
      and "map_of (v_loop_counts v) cur = None"
      and "get_state (v_storage v) rid = Inr s0"
      and "find (\<lambda>n. n_name n = cur) (nodes g) = Some nc"
      and "reg (handler nc) = Some h"
      and "loop_lookup g cur = Some lc"
      and "0 \<le> max_iterations lc"
      and "\<forall>k. \<exists>r. h ((apply_tool h ^^ k) s0) = Returns r"
      and "\<forall>k\<ge>1. evaluate_condition (l_condition lc) ((apply_tool h ^^ k) s0) = Inr True"
  shows "\<exists>r st' es. execute reg st rid gid init = Some (Inr r, st')
           \<and> res_status r = ''failed''
           \<and> res_error r = Some (exn_str (LoopLimitError cur (max_iterations lc)))
           \<and> res_execution_log r = v_execution_log v @ es
           \<and> length es = nat (max_iterations lc) + 1
           \<and> (\<forall>e \<in> set es. node e = cur)
           \<and> final_state r = (apply_tool h ^^ (nat (max_iterations lc) + 1)) s0"
proof -
  let ?e = "LoopLimitError cur (max_iterations lc)"
  have d: "nat (max_iterations lc) = nat (max_iterations lc) - 0" by simp
  have s: "get_state (v_storage v) rid = Inr ((apply_tool h ^^ 0) s0)"
    using assms(5) by simp
  have k: "(case map_of (v_loop_counts v) cur of None \<Rightarrow> 0 | Some c \<Rightarrow> c) = int 0"
    using assms(4) by simp
  from loop_until_limit
         [where reg = reg and h = h and ?s0.0 = s0 and j = 0 and rid = rid,
          OF assms(6-11) d _ assms(3) s k]
  obtain v' es where
    w: "while_loop reg rid g v = Some (Some ?e, v')"
    and l: "v_execution_log v' = v_execution_log v @ es"
    and n: "length es = nat (max_iterations lc) + 1"
    and a: "\<forall>e \<in> set es. node e = cur"
    and f: "get_state (v_storage v') rid = Inr ((apply_tool h ^^ (nat (max_iterations lc) + 1)) s0)"
    by auto
  from w while_loop_passes [OF assms(2)]
  have "while_loop reg rid g (start_vars (snd (initialize st rid gid init)) g) = Some (Some ?e, v')"
    by simp
  with assms(1)
  have "execute reg st rid gid init = Some (on_exception rid gid ?e v' (v_storage v'))"
    by (simp add: execute_def Let_def)
  with on_exception_result [OF f, of gid ?e v'] l n a show ?thesis by auto
qed

lemma bump_iterate:
  "(apply_tool bump ^^ k) [] = (if k = 0 then [] else [(''n'', PInt (int k))])"
proof (induction k)
  case 0
  show ?case by simp
next
  case (Suc k)
  then show ?case
    by (simp add: apply_tool_def bump_def dict_get_def dict_update_def)
qed

lemma bump_returns: "\<exists>r. bump s = Returns r"
  by (simp add: bump_def split: pyval.splits)

text \<open>
  The graph \<open>loop_graph\<close> has \<open>max_iterations = 3\<close>; its run fails with the loop limit
  error after four executions of \<open>work\<close>.
\<close>

theorem loop_limit_after_max_plus_one_witness:
  "\<exists>r st'. execute loop_tools loop_storage ''r'' ''g'' [] = Some (Inr r, st')
     \<and> res_status r = ''failed''
     \<and> res_error r = Some (''Loop limit exceeded at node '' @ quoted ''work'' @ '': max 3 iterations'')
     \<and> length (res_execution_log r) = 4
     \<and> (\<forall>e \<in> set (res_execution_log r). node e = ''work'')
     \<and> final_state r = [(''n'', PInt 4)]"
proof -
  let ?v = "start_vars (snd (initialize loop_storage ''r'' ''g'' [])) loop_graph"
  let ?nc = "\<lparr>n_name = ''work'', handler = ''bump'', description = None\<rparr>"
  let ?lc = "\<lparr>l_condition = n_positive, max_iterations = 3\<rparr>"
  have g: "get_graph loop_storage ''g'' = Inr loop_graph"
    by (simp add: get_graph_def load_graph_def loop_storage_def)
  have p: "passes loop_tools ''r'' loop_graph 0 ?v = Some ?v" by simp
  have c: "v_current_node ?v = Some ''work''"
    by (simp add: start_vars_def loop_graph_def)
  have k: "map_of (v_loop_counts ?v) ''work'' = None"
    by (simp add: start_vars_def)
  have s: "get_state (v_storage ?v) ''r'' = Inr []"
    by (simp add: start_vars_def initialize_def save_run_def get_state_def load_run_def Let_def)
  have n: "find (\<lambda>n. n_name n = ''work'') (nodes loop_graph) = Some ?nc"
    by (simp add: loop_graph_def)
  have h: "loop_tools (handler ?nc) = Some bump"
    by (simp add: loop_tools_def)
  have l: "loop_lookup loop_graph ''work'' = Some ?lc"
    by (simp add: loop_lookup_def loop_graph_def)
  have m: "0 \<le> max_iterations ?lc" by simp
  have ok: "\<forall>k. \<exists>r. bump ((apply_tool bump ^^ k) []) = Returns r"
    using bump_returns by blast
  have tr: "\<forall>k\<ge>1. evaluate_condition (l_condition ?lc) ((apply_tool bump ^^ k) []) = Inr True"
    by (simp add: bump_iterate evaluate_condition_def n_positive_def operators_def dict_get_def)
  have four: "(apply_tool bump ^^ (nat (max_iterations ?lc) + 1)) [] = [(''n'', PInt 4)]"
    by (simp add: bump_iterate)
  have msg: "exn_str (LoopLimitError ''work'' (max_iterations ?lc))
               = ''Loop limit exceeded at node '' @ quoted ''work'' @ '': max 3 iterations''"
    by code_simp
  from loop_limit_after_max_plus_one
         [where reg = loop_tools and h = bump and ?s0.0 = "[]", OF g p c k s n h l m ok tr]
       four msg
  show ?thesis
    by (auto simp: start_vars_def)
qed

text \<open>
  The claim as the specification words it (three records, not four) fails on this run:
  the trace has four records of \<open>work\<close>.
\<close>

theorem loop_limit_three_counterexample:
  "map_option res_status loop_run = Some ''failed''
   \<and> map_option res_error loop_run = Some (Some (exn_str (LoopLimitError ''work'' 3)))
   \<and> map_option (map node \<circ> res_execution_log) loop_run
       = Some [''work'', ''work'', ''work'', ''work'']
   \<and> map_option (length \<circ> res_execution_log) loop_run \<noteq> Some 3"
  by code_simp

section \<open>Node executions over the store\<close>

lemma heap_dict_Some:
  "heap_dict hp a = Some d \<longleftrightarrow> a < length hp \<and> hp ! a = HDict d"
  by (auto simp: heap_dict_def split: hobj.splits)

lemma dict_copy_dict:
  "heap_dict hp a = Some d \<Longrightarrow> dict_copy hp a = Inr (length hp, hp @ [HDict d])"
  by (simp add: dict_copy_def alloc_def)

text \<open>
  What a successful node execution leaves in the store, given what the handler returned
  and left: \<open>d\<close> are the items of the run's dict before, \<open>dc\<close> its items when the handler
  returns.
\<close>

lemma execute_node_h_success:
  assumes run: "sto rid = Some c" and dict: "heap_dict hp c = Some d"
      and call: "hdl (Suc (length hp)) (hp @ [HDict d, HDict d]) = (hpc, HReturns result)"
      and keep: "heap_dict hpc c = Some dc"
  shows "execute_node_h hdl rid nm hp sto =
           (case as_dict hpc result of
              None \<Rightarrow>
                (Inr \<lparr>h_node = nm, h_state_before = length hp, h_state_after = length hpc\<rparr>,
                 hpc @ [HDict dc])
            | Some u \<Rightarrow>
                (Inr \<lparr>h_node = nm, h_state_before = length hp,
                      h_state_after = Suc (length hpc)\<rparr>,
                 hpc[c := HDict (dict_update dc u)]
                   @ [HDict (dict_update dc u), HDict (dict_update dc u)]))"
proof -
  from dict have c: "c < length hp" by (simp add: heap_dict_Some)
  from keep have c': "c < length hpc" by (simp add: heap_dict_Some)
  have g1: "get_state_h hp sto rid = Inr (length hp, hp @ [HDict d])"
    using run dict by (simp add: get_state_h_def dict_copy_dict)
  have "heap_dict (hp @ [HDict d]) (length hp) = Some d"
    by (simp add: heap_dict_Some)
  then have g2: "dict_copy (hp @ [HDict d]) (length hp)
                   = Inr (Suc (length hp), hp @ [HDict d, HDict d])"
    by (simp add: dict_copy_dict)
  show ?thesis
  proof (cases "as_dict hpc result")
    case None
    have g3: "get_state_h hpc sto rid = Inr (length hpc, hpc @ [HDict dc])"
      using run keep by (simp add: get_state_h_def dict_copy_dict)
    from g1 g2 call None g3 show ?thesis
      by (simp add: execute_node_h_def)
  next
    case (Some u)
    let ?m = "HDict (dict_update dc u)"
    have "heap_dict (hpc[c := ?m]) c = Some (dict_update dc u)"
      using c' by (simp add: heap_dict_Some)
    then have u1: "update_state_h hpc sto rid u = Inr (length hpc, hpc[c := ?m] @ [?m])"
      using run keep by (simp add: update_state_h_def dict_copy_dict)
    have "heap_dict (hpc[c := ?m] @ [?m]) c = Some (dict_update dc u)"
      using c' by (simp add: heap_dict_Some nth_append)
    then have g3: "get_state_h (hpc[c := ?m] @ [?m]) sto rid
                     = Inr (Suc (length hpc), hpc[c := ?m] @ [?m, ?m])"
      using run by (simp add: get_state_h_def dict_copy_dict)
    from g1 g2 call Some u1 g3 show ?thesis
      by (simp add: execute_node_h_def)
  qed
qed

text \<open>
  Conversely, a node execution that succeeds is of this kind: the run is stored, its
  state is a dict, the handler returns, and the run's state is still a dict then.
\<close>

lemma execute_node_h_Inr:
  assumes "execute_node_h hdl rid nm hp sto = (Inr lg, hp')"
  obtains c d hpc result dc where
    "sto rid = Some c" and "heap_dict hp c = Some d"
    and "hdl (Suc (length hp)) (hp @ [HDict d, HDict d]) = (hpc, HReturns result)"
    and "heap_dict hpc c = Some dc"
    and "lg = \<lparr>h_node = nm, h_state_before = length hp,
                h_state_after = (case as_dict hpc result of
                                   None \<Rightarrow> length hpc | Some u \<Rightarrow> Suc (length hpc))\<rparr>"
    and "hp' = (case as_dict hpc result of
                   None \<Rightarrow> hpc @ [HDict dc]
                 | Some u \<Rightarrow> hpc[c := HDict (dict_update dc u)]
                              @ [HDict (dict_update dc u), HDict (dict_update dc u)])"
proof -
  from assms obtain c where run: "sto rid = Some c"
    by (cases "sto rid") (simp_all add: execute_node_h_def get_state_h_def)
  from assms run obtain d where dict: "heap_dict hp c = Some d"
    by (cases "heap_dict hp c") (simp_all add: execute_node_h_def get_state_h_def dict_copy_def)
  have g1: "get_state_h hp sto rid = Inr (length hp, hp @ [HDict d])"
    using run dict by (simp add: get_state_h_def dict_copy_dict)
  have "heap_dict (hp @ [HDict d]) (length hp) = Some d"
    by (simp add: heap_dict_Some)
  then have g2: "dict_copy (hp @ [HDict d]) (length hp)
                   = Inr (Suc (length hp), hp @ [HDict d, HDict d])"
    by (simp add: dict_copy_dict)
  obtain hpc r where call0: "hdl (Suc (length hp)) (hp @ [HDict d, HDict d]) = (hpc, r)"
    by (cases "hdl (Suc (length hp)) (hp @ [HDict d, HDict d])")
  from assms g1 g2 call0 obtain result where r: "r = HReturns result"
    by (cases r) (simp_all add: execute_node_h_def)
  from assms g1 g2 call0 r run obtain dc where keep: "heap_dict hpc c = Some dc"
    by (cases "heap_dict hpc c")
       (simp_all add: execute_node_h_def update_state_h_def get_state_h_def dict_copy_def
                 split: option.splits)
  from call0 r
  have call: "hdl (Suc (length hp)) (hp @ [HDict d, HDict d]) = (hpc, HReturns result)"
    by simp
  from execute_node_h_success [where hdl = hdl and sto = sto and rid = rid and nm = nm,
                               OF run dict call keep] assms
  have lg: "lg = \<lparr>h_node = nm, h_state_before = length hp,
                h_state_after = (case as_dict hpc result of
                                   None \<Rightarrow> length hpc | Some u \<Rightarrow> Suc (length hpc))\<rparr>"
    and hp': "hp' = (case as_dict hpc result of
                   None \<Rightarrow> hpc @ [HDict dc]
                 | Some u \<Rightarrow> hpc[c := HDict (dict_update dc u)]
                              @ [HDict (dict_update dc u), HDict (dict_update dc u)])"
    by (simp_all split: option.splits)
  from run dict call keep lg hp' show thesis by (rule that)
qed

text \<open>The sample run: its store, and what the three sample handlers do when called.\<close>

lemma alias_start_eq:
  "alias_start = [HList [], HDict [(''xs'', HRef 0)], HDict [(''xs'', HRef 0)]]"
  by code_simp

lemma alias_init_eq: "alias_init = Inr (alias_start, Map.empty(''r'' \<mapsto> 2))"
  by (simp add: alias_start_def alias_init_def initialize_h_def dict_copy_def heap_dict_def
                alloc_def alias_heap_def numeral_2_eq_2)

lemma alias_exec_eq:
  "alias_exec hdl = execute_node_h hdl ''r'' ''work'' alias_start (Map.empty(''r'' \<mapsto> 2))"
  by (simp add: alias_exec_def alias_init_eq)

lemma set_tmp_call:
  "set_tmp (Suc (length alias_start))
     (alias_start @ [HDict [(''xs'', HRef 0)], HDict [(''xs'', HRef 0)]])
     = (alias_start @ [HDict [(''xs'', HRef 0)],
                       HDict [(''xs'', HRef 0), (''tmp'', HInt 1)],
                       HDict [(''n'', HInt 5)]],
        HReturns (HRef 5))"
  by (simp add: alias_start_eq set_tmp_def heap_dict_def alloc_def Let_def)

lemma append_one_call:
  "append_one (Suc (length alias_start))
     (alias_start @ [HDict [(''xs'', HRef 0)], HDict [(''xs'', HRef 0)]])
     = ([HList [HInt 1], HDict [(''xs'', HRef 0)], HDict [(''xs'', HRef 0)],
         HDict [(''xs'', HRef 0)], HDict [(''xs'', HRef 0)]],
        HReturns HNone)"
  by (simp add: alias_start_eq append_one_def heap_dict_def)

lemma return_arg_call:
  "return_arg (Suc (length alias_start))
     (alias_start @ [HDict [(''xs'', HRef 0)], HDict [(''xs'', HRef 0)]])
     = (alias_start @ [HDict [(''xs'', HRef 0)],
                       HDict [(''xs'', HRef 0), (''tmp'', HInt 1)]],
        HReturns (HRef 4))"
  by (simp add: alias_start_eq return_arg_def heap_dict_def)

lemma alias_exec_succeeds:
  "\<not> isl (fst (alias_exec set_tmp))"
  "\<not> isl (fst (alias_exec append_one))"
  "\<not> isl (fst (alias_exec return_arg))"
  by code_simp+

section \<open>What a node execution does to the run's dict\<close>

text \<open>
  Claim C5, as the code has it. Every node execution that succeeds is of this form: the
  run's dict is an object \<open>c\<close> with items \<open>d\<close>; the handler is called on a copy of a copy of
  it, returns \<open>result\<close> and leaves the store \<open>hpc\<close>, in which the run's dict has the items
  \<open>dc\<close> (these are \<open>d\<close> again when the handler has not written object \<open>c\<close>, to which it is
  handed no reference). If \<open>result\<close> is a dict with items \<open>u\<close>, the run's dict ends with \<open>dc\<close>
  updated by \<open>u\<close>: a key of \<open>u\<close> takes the value \<open>u\<close> gives it, every other key keeps its
  binding, and values are replaced whole. If \<open>result\<close> is not a dict, the run's dict ends
  with the items \<open>dc\<close>: the engine changes no binding. Every other object of the store is
  as the handler left it, so what the handler did to an object bound in the state stays
  done. The \<^verbatim>\<open>state_after\<close> snapshot reads what the run's dict reads.
\<close>

theorem execute_node_h_merges:
  assumes "execute_node_h hdl rid nm hp sto = (Inr lg, hp')"
  shows "\<exists>c d hpc result dc.
           sto rid = Some c \<and> heap_dict hp c = Some d
           \<and> hdl (Suc (length hp)) (hp @ [HDict d, HDict d]) = (hpc, HReturns result)
           \<and> heap_dict hpc c = Some dc
           \<and> (hpc ! c = hp ! c \<longrightarrow> dc = d)
           \<and> (\<forall>u. as_dict hpc result = Some u \<longrightarrow>
                 heap_dict hp' c = Some (dict_update dc u)
                 \<and> (\<forall>k. map_of (dict_update dc u) k
                          = (case map_of (rev u) k of None \<Rightarrow> map_of dc k | Some v \<Rightarrow> Some v))
                 \<and> (distinct (map fst u) \<longrightarrow>
                      map_of (dict_update dc u) = map_of dc ++ map_of u))
           \<and> (as_dict hpc result = None \<longrightarrow> heap_dict hp' c = Some dc)
           \<and> (\<forall>x < length hpc. x \<noteq> c \<longrightarrow> hp' ! x = hpc ! x)
           \<and> heap_dict hp' (h_state_after lg) = heap_dict hp' c"
proof -
  from assms obtain c d hpc result dc where
    run: "sto rid = Some c" and dict: "heap_dict hp c = Some d"
    and call: "hdl (Suc (length hp)) (hp @ [HDict d, HDict d]) = (hpc, HReturns result)"
    and keep: "heap_dict hpc c = Some dc"
    and lg: "lg = \<lparr>h_node = nm, h_state_before = length hp,
                h_state_after = (case as_dict hpc result of
                                   None \<Rightarrow> length hpc | Some u \<Rightarrow> Suc (length hpc))\<rparr>"
    and hp': "hp' = (case as_dict hpc result of
                   None \<Rightarrow> hpc @ [HDict dc]
                 | Some u \<Rightarrow> hpc[c := HDict (dict_update dc u)]
                              @ [HDict (dict_update dc u), HDict (dict_update dc u)])"
    by (rule execute_node_h_Inr)
  from dict have hc: "hp ! c = HDict d" by (simp add: heap_dict_Some)
  from keep have c': "c < length hpc" and hc': "hpc ! c = HDict dc"
    by (simp_all add: heap_dict_Some)
  have same: "hpc ! c = hp ! c \<longrightarrow> dc = d" using hc hc' by simp
  have merge: "\<forall>u. as_dict hpc result = Some u \<longrightarrow>
                 heap_dict hp' c = Some (dict_update dc u)
                 \<and> (\<forall>k. map_of (dict_update dc u) k
                          = (case map_of (rev u) k of None \<Rightarrow> map_of dc k | Some v \<Rightarrow> Some v))
                 \<and> (distinct (map fst u) \<longrightarrow>
                      map_of (dict_update dc u) = map_of dc ++ map_of u)"
  proof (intro allI impI conjI)
    fix u assume u: "as_dict hpc result = Some u"
    with hp' have "hp' = hpc[c := HDict (dict_update dc u)]
                          @ [HDict (dict_update dc u), HDict (dict_update dc u)]"
      by simp
    then show "heap_dict hp' c = Some (dict_update dc u)"
      using c' by (simp add: heap_dict_Some nth_append)
    show "map_of (dict_update dc u) k
            = (case map_of (rev u) k of None \<Rightarrow> map_of dc k | Some v \<Rightarrow> Some v)" for k
      by (simp add: map_of_dict_update map_add_def)
    show "map_of (dict_update dc u) = map_of dc ++ map_of u" if "distinct (map fst u)"
      using that by (simp add: map_of_dict_update map_of_rev_distinct)
  qed
  have ignore: "as_dict hpc result = None \<longrightarrow> heap_dict hp' c = Some dc"
  proof
    assume "as_dict hpc result = None"
    with hp' have "hp' = hpc @ [HDict dc]" by simp
    then show "heap_dict hp' c = Some dc"
      using c' hc' by (simp add: heap_dict_Some nth_append)
  qed
  have frame: "\<forall>x < length hpc. x \<noteq> c \<longrightarrow> hp' ! x = hpc ! x"
    using hp' by (cases "as_dict hpc result") (simp_all add: nth_append)
  have after: "heap_dict hp' (h_state_after lg) = heap_dict hp' c"
    using lg hp' c' hc' by (cases "as_dict hpc result") (simp_all add: heap_dict_def nth_append)
  show ?thesis
    by (rule exI [of _ c], rule exI [of _ d], rule exI [of _ hpc], rule exI [of _ result],
        rule exI [of _ dc])
       (intro conjI; fact)
qed

text \<open>
  From the state \<open>{xs: []}\<close>: the handler \<open>set_tmp\<close> returns \<open>{n: 5}\<close> and the run's dict ends
  as \<open>{xs, n}\<close>, without the key \<open>tmp\<close> the handler bound in its own argument; the handler
  \<open>append_one\<close> returns \<^verbatim>\<open>None\<close> and the run's dict keeps its one binding.
\<close>

theorem execute_node_h_merges_witness:
  "(\<exists>lg hp'. alias_exec set_tmp = (Inr lg, hp')
      \<and> heap_dict hp' 2 = Some [(''xs'', HRef 0), (''n'', HInt 5)])
   \<and> (\<exists>lg hp'. alias_exec append_one = (Inr lg, hp')
      \<and> heap_dict hp' 2 = Some [(''xs'', HRef 0)])"
proof -
  let ?sto = "Map.empty(''r'' \<mapsto> (2::nat))"
  let ?d = "[(''xs'', HRef 0)]"
  have d: "heap_dict alias_start 2 = Some ?d"
    by (simp add: alias_start_eq heap_dict_def)
  obtain lg1 hp1 where e1: "alias_exec set_tmp = (Inr lg1, hp1)"
    using alias_exec_succeeds(1)
    by (cases "alias_exec set_tmp"; cases "fst (alias_exec set_tmp)") simp_all
  then have "execute_node_h set_tmp ''r'' ''work'' alias_start ?sto = (Inr lg1, hp1)"
    by (simp add: alias_exec_eq)
  from execute_node_h_merges [OF this] d set_tmp_call
  have "heap_dict hp1 2 = Some (dict_update ?d [(''n'', HInt 5)])"
    by (auto simp: alias_start_eq as_dict_def heap_dict_def)
  with e1 have 1: "\<exists>lg hp'. alias_exec set_tmp = (Inr lg, hp')
             \<and> heap_dict hp' 2 = Some (dict_update ?d [(''n'', HInt 5)])"
    by blast
  obtain lg2 hp2 where e2: "alias_exec append_one = (Inr lg2, hp2)"
    using alias_exec_succeeds(2)
    by (cases "alias_exec append_one"; cases "fst (alias_exec append_one)") simp_all
  then have "execute_node_h append_one ''r'' ''work'' alias_start ?sto = (Inr lg2, hp2)"
    by (simp add: alias_exec_eq)
  from execute_node_h_merges [OF this] d append_one_call
  have "heap_dict hp2 2 = Some ?d"
    by (auto simp: alias_start_eq as_dict_def heap_dict_def)
  with e2 have 2: "\<exists>lg hp'. alias_exec append_one = (Inr lg, hp') \<and> heap_dict hp' 2 = Some ?d"
    by blast
  from 1 2 show ?thesis by (simp add: dict_update_def)
qed

text \<open>
  The second half of the claim as the specification words it (a return value that is not
  a mapping leaves the state unchanged) fails. The run's state reads \<open>{xs: []}\<close>; the
  handler \<open>append_one\<close> returns \<^verbatim>\<open>None\<close>; the node execution succeeds; the run's state
  then reads \<open>{xs: [1]}\<close>, because the list under \<open>xs\<close> in the handler's argument is the list
  of the run's state.
\<close>

theorem non_mapping_return_counterexample:
  "alias_run_addr = Some 2
   \<and> view 3 alias_start (HRef 2) = Some (PDict [(''xs'', PList [])])
   \<and> snd (append_one 4 (alias_start @ [alias_start ! 2, alias_start ! 2])) = HReturns HNone
   \<and> \<not> isl (fst (alias_exec append_one))
   \<and> view 3 (snd (alias_exec append_one)) (HRef 2) = Some (PDict [(''xs'', PList [PInt 1])])"
  by code_simp

section \<open>Copies of the state are shallow\<close>

lemma set_tmp_top_level_only: "top_level_only set_tmp"
  unfolding top_level_only_def
proof (intro allI conjI impI)
  fix a hp
  show "length hp \<le> length (fst (set_tmp a hp))"
    by (simp add: set_tmp_def alloc_def Let_def split: option.splits)
  fix x assume "x < length hp" and "x \<noteq> a"
  then show "fst (set_tmp a hp) ! x = hp ! x"
    by (simp add: set_tmp_def alloc_def Let_def nth_append split: option.splits)
qed

lemma return_arg_top_level_only: "top_level_only return_arg"
  unfolding top_level_only_def
proof (intro allI conjI impI)
  fix a hp
  show "length hp \<le> length (fst (return_arg a hp))"
    by (simp add: return_arg_def split: option.splits)
  fix x assume "x < length hp" and "x \<noteq> a"
  then show "fst (return_arg a hp) ! x = hp ! x"
    by (simp add: return_arg_def split: option.splits)
qed

text \<open>
  Claim C8, as the code has it. Every copy of the state is a shallow one: a new dict
  object that holds the values of the old one, so that a list or a dict bound in the
  state is one object for all copies.

  At run creation the run gets a new dict object with the items of the caller's dict, and
  no object of the store is written.

  Every node execution that succeeds, on a handler that removes no object from the store,
  is of this form. The run's dict is an object \<open>c\<close> with items \<open>d\<close>. The \<^verbatim>\<open>state_before\<close>
  snapshot and the handler's argument are two new objects, and when the handler is called
  both hold the items \<open>d\<close>. The handler returns \<open>result\<close> and leaves the store \<open>hpc\<close>, where
  the run's dict has the items \<open>dc\<close>. The engine then writes one object, the run's dict,
  which gets \<open>dc\<close> updated by the items of \<open>result\<close> when \<open>result\<close> is a dict and keeps \<open>dc\<close>
  otherwise; every other object is as the handler left it, the objects bound in the state
  among them. The \<^verbatim>\<open>state_after\<close> snapshot is a further new object with the items of the
  run's dict. If the handler mutates only the mapping it receives, then \<open>dc\<close> is \<open>d\<close>, the
  \<^verbatim>\<open>state_before\<close> snapshot still holds \<open>d\<close>, and every object that existed before
  the node ran, other than the run's dict, is unchanged: the caller's dict, and every
  earlier snapshot.
\<close>

theorem state_copies_are_shallow:
  assumes "execute_node_h hdl rid nm hp sto = (Inr lg, hp')"
      and "\<forall>a h. length h \<le> length (fst (hdl a h))"
  shows "(\<exists>c d hpc result dc.
            sto rid = Some c \<and> heap_dict hp c = Some d
            \<and> hdl (Suc (length hp)) (hp @ [HDict d, HDict d]) = (hpc, HReturns result)
            \<and> heap_dict hpc c = Some dc
            \<and> c < length hp \<and> h_state_before lg = length hp
            \<and> Suc (length hp) < length hpc
            \<and> length hpc \<le> h_state_after lg \<and> h_state_after lg < length hp'
            \<and> (\<forall>x < length hpc. x \<noteq> c \<longrightarrow> hp' ! x = hpc ! x)
            \<and> heap_dict hp' c
                 = Some (case as_dict hpc result of None \<Rightarrow> dc | Some u \<Rightarrow> dict_update dc u)
            \<and> hp' ! h_state_after lg = hp' ! c
            \<and> (top_level_only hdl \<longrightarrow>
                 dc = d \<and> heap_dict hp' (h_state_before lg) = Some d
                 \<and> (\<forall>x < length hp. x \<noteq> c \<longrightarrow> hp' ! x = hp ! x)))
         \<and> (\<forall>d0. heap_dict hp0 init = Some d0 \<longrightarrow>
               initialize_h hp0 sto0 rid0 init
                 = Inr (hp0 @ [HDict d0], sto0(rid0 \<mapsto> length hp0)))"
proof (rule conjI)
  from assms(1) obtain c d hpc result dc where
    run: "sto rid = Some c" and dict: "heap_dict hp c = Some d"
    and call: "hdl (Suc (length hp)) (hp @ [HDict d, HDict d]) = (hpc, HReturns result)"
    and keep: "heap_dict hpc c = Some dc"
    and lg: "lg = \<lparr>h_node = nm, h_state_before = length hp,
                h_state_after = (case as_dict hpc result of
                                   None \<Rightarrow> length hpc | Some u \<Rightarrow> Suc (length hpc))\<rparr>"
    and hp': "hp' = (case as_dict hpc result of
                   None \<Rightarrow> hpc @ [HDict dc]
                 | Some u \<Rightarrow> hpc[c := HDict (dict_update dc u)]
                              @ [HDict (dict_update dc u), HDict (dict_update dc u)])"
    by (rule execute_node_h_Inr)
  from dict have c: "c < length hp" and hc: "hp ! c = HDict d"
    by (simp_all add: heap_dict_Some)
  from keep have c': "c < length hpc" and hc': "hpc ! c = HDict dc"
    by (simp_all add: heap_dict_Some)
  from assms(2) have "length (hp @ [HDict d, HDict d])
                        \<le> length (fst (hdl (Suc (length hp)) (hp @ [HDict d, HDict d])))"
    by (rule allE [where x = "Suc (length hp)"]) (erule allE)
  with call have grow: "Suc (length hp) < length hpc" by simp
  have before: "h_state_before lg = length hp" using lg by simp
  have after: "length hpc \<le> h_state_after lg" "h_state_after lg < length hp'"
    using lg hp' by (simp_all split: option.splits)
  have frame: "\<forall>x < length hpc. x \<noteq> c \<longrightarrow> hp' ! x = hpc ! x"
    using hp' by (cases "as_dict hpc result") (simp_all add: nth_append)
  have merged: "heap_dict hp' c
                  = Some (case as_dict hpc result of None \<Rightarrow> dc | Some u \<Rightarrow> dict_update dc u)"
    using hp' c' hc' by (cases "as_dict hpc result") (simp_all add: heap_dict_Some nth_append)
  have snap: "hp' ! h_state_after lg = hp' ! c"
    using lg hp' c' hc' by (cases "as_dict hpc result") (simp_all add: nth_append)
  have top: "top_level_only hdl \<longrightarrow>
               dc = d \<and> heap_dict hp' (h_state_before lg) = Some d
               \<and> (\<forall>x < length hp. x \<noteq> c \<longrightarrow> hp' ! x = hp ! x)"
  proof
    assume "top_level_only hdl"
    then have "\<forall>x < length (hp @ [HDict d, HDict d]). x \<noteq> Suc (length hp) \<longrightarrow>
                 fst (hdl (Suc (length hp)) (hp @ [HDict d, HDict d])) ! x
                   = (hp @ [HDict d, HDict d]) ! x"
      unfolding top_level_only_def by blast
    with call have old: "\<forall>x < Suc (Suc (length hp)). x \<noteq> Suc (length hp) \<longrightarrow>
                           hpc ! x = (hp @ [HDict d, HDict d]) ! x"
      by simp
    from old c have "hpc ! c = hp ! c" by (simp add: nth_append)
    with hc hc' have 1: "dc = d" by simp
    from old have "hpc ! length hp = HDict d" by (simp add: nth_append)
    moreover from frame grow c have "hp' ! length hp = hpc ! length hp" by simp
    moreover from after grow have "length hp < length hp'" by simp
    ultimately have 2: "heap_dict hp' (h_state_before lg) = Some d"
      using before by (simp add: heap_dict_Some)
    have 3: "\<forall>x < length hp. x \<noteq> c \<longrightarrow> hp' ! x = hp ! x"
    proof (intro allI impI)
      fix x assume x: "x < length hp" and xc: "x \<noteq> c"
      with frame grow have "hp' ! x = hpc ! x" by simp
      also from old x have "\<dots> = hp ! x" by (simp add: nth_append)
      finally show "hp' ! x = hp ! x" .
    qed
    from 1 2 3 show "dc = d \<and> heap_dict hp' (h_state_before lg) = Some d
               \<and> (\<forall>x < length hp. x \<noteq> c \<longrightarrow> hp' ! x = hp ! x)"
      by simp
  qed
  note after1 = after(1) and after2 = after(2)
  show "\<exists>c d hpc result dc.
            sto rid = Some c \<and> heap_dict hp c = Some d
            \<and> hdl (Suc (length hp)) (hp @ [HDict d, HDict d]) = (hpc, HReturns result)
            \<and> heap_dict hpc c = Some dc
            \<and> c < length hp \<and> h_state_before lg = length hp
            \<and> Suc (length hp) < length hpc
            \<and> length hpc \<le> h_state_after lg \<and> h_state_after lg < length hp'
            \<and> (\<forall>x < length hpc. x \<noteq> c \<longrightarrow> hp' ! x = hpc ! x)
            \<and> heap_dict hp' c
                 = Some (case as_dict hpc result of None \<Rightarrow> dc | Some u \<Rightarrow> dict_update dc u)
            \<and> hp' ! h_state_after lg = hp' ! c
            \<and> (top_level_only hdl \<longrightarrow>
                 dc = d \<and> heap_dict hp' (h_state_before lg) = Some d
                 \<and> (\<forall>x < length hp. x \<noteq> c \<longrightarrow> hp' ! x = hp ! x))"
    by (rule exI [of _ c], rule exI [of _ d], rule exI [of _ hpc], rule exI [of _ result],
        rule exI [of _ dc])
       (intro conjI; fact)
next
  show "\<forall>d0. heap_dict hp0 init = Some d0 \<longrightarrow>
               initialize_h hp0 sto0 rid0 init
                 = Inr (hp0 @ [HDict d0], sto0(rid0 \<mapsto> length hp0))"
    by (simp add: initialize_h_def dict_copy_dict)
qed

text \<open>
  From the caller's state \<open>{xs: []}\<close>. The handler \<open>set_tmp\<close> binds a key in its argument
  and returns \<open>{n: 5}\<close>: after the node has run the caller's two objects are as they were,
  the snapshot taken before holds neither \<open>tmp\<close> nor \<open>n\<close>, and the run's dict holds \<open>n\<close> but
  not \<open>tmp\<close>. The handler \<open>return_arg\<close> binds the same key and returns its argument: the
  run's dict then holds \<open>tmp\<close>, through the merge of what was returned, and the caller's
  objects and the snapshot taken before are again as they were.
\<close>

theorem state_copies_are_shallow_witness:
  "(\<exists>lg hp'. alias_exec set_tmp = (Inr lg, hp')
      \<and> hp' ! 0 = alias_heap ! 0 \<and> hp' ! 1 = alias_heap ! 1
      \<and> heap_dict hp' (h_state_before lg) = Some [(''xs'', HRef 0)]
      \<and> heap_dict hp' 2 = Some [(''xs'', HRef 0), (''n'', HInt 5)]
      \<and> hp' ! h_state_after lg = hp' ! 2)
   \<and> (\<exists>lg hp'. alias_exec return_arg = (Inr lg, hp')
      \<and> hp' ! 0 = alias_heap ! 0 \<and> hp' ! 1 = alias_heap ! 1
      \<and> heap_dict hp' (h_state_before lg) = Some [(''xs'', HRef 0)]
      \<and> heap_dict hp' 2 = Some [(''xs'', HRef 0), (''tmp'', HInt 1)]
      \<and> hp' ! h_state_after lg = hp' ! 2)
   \<and> alias_init = Inr (alias_heap @ [HDict [(''xs'', HRef 0)]], Map.empty(''r'' \<mapsto> 2))"
proof -
  let ?sto = "Map.empty(''r'' \<mapsto> (2::nat))"
  let ?d = "[(''xs'', HRef 0)]"
  have d: "heap_dict alias_start 2 = Some ?d"
    by (simp add: alias_start_eq heap_dict_def)
  have len: "length alias_start = 3" by (simp add: alias_start_eq)
  have old: "alias_start ! 0 = alias_heap ! 0" "alias_start ! 1 = alias_heap ! 1"
    by (simp_all add: alias_start_eq alias_heap_def)
  have g1: "\<forall>a h. length h \<le> length (fst (set_tmp a h))"
    using set_tmp_top_level_only by (simp add: top_level_only_def)
  have g2: "\<forall>a h. length h \<le> length (fst (return_arg a h))"
    using return_arg_top_level_only by (simp add: top_level_only_def)
  have i0: "heap_dict alias_heap 1 = Some ?d" by (simp add: alias_heap_def heap_dict_def)
  obtain lg1 hp1 where e1: "alias_exec set_tmp = (Inr lg1, hp1)"
    using alias_exec_succeeds(1)
    by (cases "alias_exec set_tmp"; cases "fst (alias_exec set_tmp)") simp_all
  then have x1: "execute_node_h set_tmp ''r'' ''work'' alias_start ?sto = (Inr lg1, hp1)"
    by (simp add: alias_exec_eq)
  note t1 = state_copies_are_shallow
              [where ?hp0.0 = alias_heap and init = 1 and ?sto0.0 = Map.empty
                 and ?rid0.0 = "''r''", OF x1 g1]
  from t1 [THEN conjunct1] obtain c dd hpc result dc where
    "?sto ''r'' = Some c" and "heap_dict alias_start c = Some dd"
    and "set_tmp (Suc (length alias_start)) (alias_start @ [HDict dd, HDict dd])
           = (hpc, HReturns result)"
    and "heap_dict hpc c = Some dc"
    and m: "heap_dict hp1 c
              = Some (case as_dict hpc result of None \<Rightarrow> dc | Some u \<Rightarrow> dict_update dc u)"
    and a: "hp1 ! h_state_after lg1 = hp1 ! c"
    and "top_level_only set_tmp \<longrightarrow>
           dc = dd \<and> heap_dict hp1 (h_state_before lg1) = Some dd
           \<and> (\<forall>x < length alias_start. x \<noteq> c \<longrightarrow> hp1 ! x = alias_start ! x)"
    by blast
  with d set_tmp_call set_tmp_top_level_only len
  have c: "c = 2" and dd: "dd = ?d" and dc: "dc = ?d"
    and r: "as_dict hpc result = Some [(''n'', HInt 5)]"
    and b: "heap_dict hp1 (h_state_before lg1) = Some ?d"
    and o: "\<forall>x < 3. x \<noteq> 2 \<longrightarrow> hp1 ! x = alias_start ! x"
    by (auto simp: as_dict_def heap_dict_def alias_start_eq)
  from o old have "hp1 ! 0 = alias_heap ! 0" and "hp1 ! 1 = alias_heap ! 1" by simp_all
  with e1 m a b c dc r
  have 1: "\<exists>lg hp'. alias_exec set_tmp = (Inr lg, hp')
      \<and> hp' ! 0 = alias_heap ! 0 \<and> hp' ! 1 = alias_heap ! 1
      \<and> heap_dict hp' (h_state_before lg) = Some [(''xs'', HRef 0)]
      \<and> heap_dict hp' 2 = Some [(''xs'', HRef 0), (''n'', HInt 5)]
      \<and> hp' ! h_state_after lg = hp' ! 2"
    by (simp add: dict_update_def)
  from t1 [THEN conjunct2] i0
  have 3: "alias_init = Inr (alias_heap @ [HDict ?d], ?sto)"
    by (simp add: alias_init_def alias_heap_def numeral_2_eq_2)
  obtain lg2 hp2 where e2: "alias_exec return_arg = (Inr lg2, hp2)"
    using alias_exec_succeeds(3)
    by (cases "alias_exec return_arg"; cases "fst (alias_exec return_arg)") simp_all
  then have x2: "execute_node_h return_arg ''r'' ''work'' alias_start ?sto = (Inr lg2, hp2)"
    by (simp add: alias_exec_eq)
  note t2 = state_copies_are_shallow
              [where ?hp0.0 = alias_heap and init = 1 and ?sto0.0 = Map.empty
                 and ?rid0.0 = "''r''", OF x2 g2]
  from t2 [THEN conjunct1] obtain c2 dd2 hpc2 result2 dc2 where
    "?sto ''r'' = Some c2" and "heap_dict alias_start c2 = Some dd2"
    and "return_arg (Suc (length alias_start)) (alias_start @ [HDict dd2, HDict dd2])
           = (hpc2, HReturns result2)"
    and "heap_dict hpc2 c2 = Some dc2"
    and m2: "heap_dict hp2 c2
              = Some (case as_dict hpc2 result2 of None \<Rightarrow> dc2 | Some u \<Rightarrow> dict_update dc2 u)"
    and a2: "hp2 ! h_state_after lg2 = hp2 ! c2"
    and "top_level_only return_arg \<longrightarrow>
           dc2 = dd2 \<and> heap_dict hp2 (h_state_before lg2) = Some dd2
           \<and> (\<forall>x < length alias_start. x \<noteq> c2 \<longrightarrow> hp2 ! x = alias_start ! x)"
    by blast
  with d return_arg_call return_arg_top_level_only len
  have c2: "c2 = 2" and dd2: "dd2 = ?d" and dc2: "dc2 = ?d"
    and r2: "as_dict hpc2 result2 = Some [(''xs'', HRef 0), (''tmp'', HInt 1)]"
    and b2: "heap_dict hp2 (h_state_before lg2) = Some ?d"
    and o2: "\<forall>x < 3. x \<noteq> 2 \<longrightarrow> hp2 ! x = alias_start ! x"
    by (auto simp: as_dict_def heap_dict_def alias_start_eq)
  from o2 old have "hp2 ! 0 = alias_heap ! 0" and "hp2 ! 1 = alias_heap ! 1" by simp_all
  with e2 m2 a2 b2 c2 dc2 r2
  have 2: "\<exists>lg hp'. alias_exec return_arg = (Inr lg, hp')
      \<and> hp' ! 0 = alias_heap ! 0 \<and> hp' ! 1 = alias_heap ! 1
      \<and> heap_dict hp' (h_state_before lg) = Some [(''xs'', HRef 0)]
      \<and> heap_dict hp' 2 = Some [(''xs'', HRef 0), (''tmp'', HInt 1)]
      \<and> hp' ! h_state_after lg = hp' ! 2"
    by (simp add: dict_update_def)
  from 1 2 3 show ?thesis by (intro conjI)
qed

text \<open>
  The claim as the specification words it (deep copies) fails. The handler \<open>append_one\<close>
  appends to the list it finds under \<open>xs\<close> in the mapping it receives and returns \<^verbatim>\<open>None\<close>.
  Before the run the caller's state reads \<open>{xs: []}\<close>. After the node has run, the caller's
  state, the run's own state (object 2) and the \<^verbatim>\<open>state_before\<close> snapshot all read
  \<open>{xs: [1]}\<close>: the list is one object shared by all of them.
\<close>

theorem deep_copy_counterexample:
  "view 3 alias_heap (HRef 1) = Some (PDict [(''xs'', PList [])])
   \<and> alias_run_addr = Some 2
   \<and> \<not> isl (fst (alias_exec append_one))
   \<and> view 3 (snd (alias_exec append_one)) (HRef 1) = Some (PDict [(''xs'', PList [PInt 1])])
   \<and> view 3 (snd (alias_exec append_one)) (HRef 2) = Some (PDict [(''xs'', PList [PInt 1])])
   \<and> view 3 (snd (alias_exec append_one))
        (HRef (h_state_before (projr (fst (alias_exec append_one)))))
        = Some (PDict [(''xs'', PList [PInt 1])])"
  by code_simp

end
